theory Spec2Isabelle
  imports Main "HOL-Library.AList" "HOL-Library.Multiset" "HOL-Library.Word"
begin

section \<open>The puzzle index of serverOnly.ts (getPuzzlesForPage)\<close>

text \<open>
  A Firestore \<^verbatim>\<open>Timestamp\<close> is identified with its \<^verbatim>\<open>toMillis()\<close> value: every
  timestamp the function puts into an index is built by \<^verbatim>\<open>AdminTimestamp.fromMillis\<close>, the
  sort compares \<^verbatim>\<open>toMillis()\<close>, and \<^verbatim>\<open>goLiveTime > AdminTimestamp.now()\<close> compares the two
  instants. The clock \<^verbatim>\<open>AdminTimestamp.now()\<close>, which the filter loop reads at every
  private-until entry, is read once per run: it is the parameter \<open>now\<close> of the model.
\<close>

type_synonym timestamp = int

text \<open>
  \<^verbatim>\<open>PuzzleIndexV\<close>: the arrays \<^verbatim>\<open>t\<close> and \<^verbatim>\<open>i\<close> are required, \<^verbatim>\<open>pv\<close>, \<^verbatim>\<open>pvui\<close> and
  \<^verbatim>\<open>pvut\<close> are optional (\<^verbatim>\<open>t.partial\<close>). The fields carry the prefix \<open>idx_\<close>.
\<close>

record PuzzleIndexT =
  idx_t :: "timestamp list"
  idx_i :: "string list"
  idx_pv :: "string list option"
  idx_pvui :: "string list option"
  idx_pvut :: "timestamp list option"

text \<open>
  A document of collection \<^verbatim>\<open>i\<close>, seen through \<^verbatim>\<open>PuzzleIndexV.decode\<close>: either its data
  fails the shape validation or it decodes to an index.
\<close>

datatype index_doc = Unshaped | Shaped PuzzleIndexT

text \<open>
  A document of collection \<^verbatim>\<open>c\<close> as stored: the fields the function and its query read
  (\<^verbatim>\<open>a\<close>, \<^verbatim>\<open>f\<close>, \<^verbatim>\<open>p\<close>, \<^verbatim>\<open>pv\<close>, \<^verbatim>\<open>pvu\<close>), each present or not, and the remaining
  fields, \<open>None\<close> when they do not pass \<^verbatim>\<open>DBPuzzleV\<close>.
\<close>

record 'x puzzle_data =
  raw_a :: "string option"
  raw_f :: "bool option"
  raw_p :: "timestamp option"
  raw_pv :: "bool option"
  raw_pvu :: "timestamp option"
  raw_rest :: "'x option"

record 'x DBPuzzleT =
  pz_a :: string
  pz_f :: "bool option"
  pz_p :: timestamp
  pz_pv :: "bool option"
  pz_pvu :: "timestamp option"
  pz_rest :: 'x

text \<open>
  Modelled from the spec: \<^verbatim>\<open>DBPuzzleV\<close> (lib/dbtypes is not among the sources). The input
  puzzle document has an author identity and a publish time; the privacy flags and the
  featured flag are optional; the remaining fields are validated as a whole.
\<close>

definition DBPuzzleV_decode :: "'x puzzle_data \<Rightarrow> 'x DBPuzzleT option" where
  "DBPuzzleV_decode d =
     (case (raw_a d, raw_p d, raw_rest d) of
        (Some au, Some ts, Some r) \<Rightarrow>
          Some \<lparr>pz_a = au, pz_f = raw_f d, pz_p = ts, pz_pv = raw_pv d,
                pz_pvu = raw_pvu d, pz_rest = r\<rparr>
      | _ \<Rightarrow> None)"

text \<open>
  The two collections the function touches. A collection is an association list from
  document id to document (\<open>map_of\<close> is \<^verbatim>\<open>doc(id).get()\<close>, \<open>AList.update\<close> is
  \<^verbatim>\<open>doc(id).set(...)\<close>); the order of \<open>coll_c\<close> is the store's enumeration order.
\<close>

record 'x firestore =
  coll_i :: "(string \<times> index_doc) list"
  coll_c :: "(string \<times> 'x puzzle_data) list"

datatype error =
    FailedToValidateIndex string
  | MissingFromPvut string
  | MalformedContent

subsection \<open>Step 1: loading the index\<close>

definition emptyIndex :: PuzzleIndexT where
  "emptyIndex = \<lparr>idx_t = [], idx_i = [], idx_pv = None, idx_pvui = None, idx_pvut = None\<rparr>"

definition loadIndex :: "string \<Rightarrow> 'x firestore \<Rightarrow> error + PuzzleIndexT" where
  "loadIndex indexDocId db =
     (case map_of (coll_i db) indexDocId of
        None \<Rightarrow> Inr emptyIndex
      | Some Unshaped \<Rightarrow> Inl (FailedToValidateIndex indexDocId)
      | Some (Shaped index) \<Rightarrow> Inr index)"

subsection \<open>Step 2: the query for new documents and the index update\<close>

datatype qvalue = QString string | QBool bool

text \<open>
  \<^verbatim>\<open>where(queryField, '==', queryValue)\<close>. The two callers query the author field \<^verbatim>\<open>a\<close>
  with a string and the featured field \<^verbatim>\<open>f\<close> with a boolean.
\<close>

definition field_eq :: "string \<Rightarrow> qvalue \<Rightarrow> 'x puzzle_data \<Rightarrow> bool" where
  "field_eq queryField queryValue d =
     (if queryField = ''a'' then
        (case queryValue of QString s \<Rightarrow> raw_a d = Some s | QBool _ \<Rightarrow> False)
      else if queryField = ''f'' then
        (case queryValue of QBool b \<Rightarrow> raw_f d = Some b | QString _ \<Rightarrow> False)
      else False)"

text \<open>
  Modelled from the spec: the Firestore query (the SDK is not among the sources), "query
  the underlying store for documents newer than the index's most recent known timestamp".
  \<^verbatim>\<open>where(...).orderBy('p', 'desc')\<close> selects the matching documents that have a publish
  time, newest first (documents of equal publish time stay in enumeration order);
  \<^verbatim>\<open>endBefore(ts)\<close> keeps those strictly newer than \<open>ts\<close>.
\<close>

definition query_candidate ::
  "string \<Rightarrow> qvalue \<Rightarrow> string \<times> 'x puzzle_data \<Rightarrow> (timestamp \<times> string \<times> 'x puzzle_data) option" where
  "query_candidate queryField queryValue e =
     (case raw_p (snd e) of
        None \<Rightarrow> None
      | Some ts \<Rightarrow> if field_eq queryField queryValue (snd e) then Some (ts, e) else None)"

definition run_query ::
  "string \<Rightarrow> qvalue \<Rightarrow> timestamp option \<Rightarrow> (string \<times> 'x puzzle_data) list
     \<Rightarrow> (timestamp \<times> string \<times> 'x puzzle_data) list" where
  "run_query queryField queryValue endBefore docs =
     (let ordered = sort_key (\<lambda>c. - fst c) (List.map_filter (query_candidate queryField queryValue) docs)
      in case endBefore of
           None \<Rightarrow> ordered
         | Some ts \<Rightarrow> filter (\<lambda>c. ts < fst c) ordered)"

text \<open>
  Modelled from the spec: \<^verbatim>\<open>mapEachResult\<close> (lib/dbUtils is not among the sources). It
  decodes every document of the query result with \<^verbatim>\<open>DBPuzzleV\<close> and pairs it with its id.
  What it does with a document that fails to decode is not fixed by the spec, so both
  behaviours are modelled: the whole call fails, or the document is left out.
\<close>

datatype bad_doc_policy = RejectAll | SkipBad

fun mapEachResult ::
  "bad_doc_policy \<Rightarrow> (timestamp \<times> string \<times> 'x puzzle_data) list \<Rightarrow> error + (string \<times> 'x DBPuzzleT) list" where
  "mapEachResult pol [] = Inr []"
| "mapEachResult pol ((ts, docId, d) # rest) =
     (case DBPuzzleV_decode d of
        Some dbpuzz \<Rightarrow>
          (case mapEachResult pol rest of
             Inl e \<Rightarrow> Inl e
           | Inr results \<Rightarrow> Inr ((docId, dbpuzz) # results))
      | None \<Rightarrow>
          (case pol of
             RejectAll \<Rightarrow> Inl MalformedContent
           | SkipBad \<Rightarrow> mapEachResult pol rest))"

text \<open>
  The cursor: \<^verbatim>\<open>if (index.i.length) { const mostRecentTimestamp = index.t[0]; if
  (mostRecentTimestamp) q = q.endBefore(mostRecentTimestamp) }\<close>.
\<close>

definition mostRecentTimestamp :: "PuzzleIndexT \<Rightarrow> timestamp option" where
  "mostRecentTimestamp index =
     (if idx_i index \<noteq> [] then (case idx_t index of [] \<Rightarrow> None | ts # _ \<Rightarrow> Some ts) else None)"

definition orEmpty :: "'a list option \<Rightarrow> 'a list" where
  "orEmpty l = (case l of None \<Rightarrow> [] | Some xs \<Rightarrow> xs)"

text \<open>
  One iteration of \<^verbatim>\<open>for (const p of newPuzzles.reverse())\<close>: \<^verbatim>\<open>unshift\<close> puts the
  timestamp and the id in front, \<^verbatim>\<open>index.pv.push\<close> appends, the private-until pair is
  unshifted. \<^verbatim>\<open>if (p.pv)\<close> holds for the value \<^verbatim>\<open>true\<close>, \<^verbatim>\<open>if (p.pvu)\<close> for any timestamp.
\<close>

definition addToIndex :: "PuzzleIndexT \<Rightarrow> string \<times> 'x DBPuzzleT \<Rightarrow> PuzzleIndexT" where
  "addToIndex index np =
     (let index1 = index\<lparr>idx_t := pz_p (snd np) # idx_t index, idx_i := fst np # idx_i index\<rparr>;
          index2 = (if pz_pv (snd np) = Some True
                    then index1\<lparr>idx_pv := Some (orEmpty (idx_pv index1) @ [fst np])\<rparr>
                    else index1)
      in case pz_pvu (snd np) of
           None \<Rightarrow> index2
         | Some goLive \<Rightarrow>
             index2\<lparr>idx_pvut := Some (goLive # orEmpty (idx_pvut index2)),
                    idx_pvui := Some (fst np # orEmpty (idx_pvui index2))\<rparr>)"

definition updateIndex :: "PuzzleIndexT \<Rightarrow> (string \<times> 'x DBPuzzleT) list \<Rightarrow> PuzzleIndexT" where
  "updateIndex index newPuzzles = foldl addToIndex index (rev newPuzzles)"

text \<open>
  Steps 1 and 2 together: the new puzzles, the index the rest of the function works on,
  and the store after \<^verbatim>\<open>db.collection('i').doc(indexDocId).set(index)\<close>, which is executed
  only when there are new puzzles.
\<close>

definition refreshIndex ::
  "bad_doc_policy \<Rightarrow> string \<Rightarrow> string \<Rightarrow> qvalue \<Rightarrow> 'x firestore
     \<Rightarrow> error + ((string \<times> 'x DBPuzzleT) list \<times> PuzzleIndexT \<times> 'x firestore)" where
  "refreshIndex pol indexDocId queryField queryValue db =
     (case loadIndex indexDocId db of
        Inl e \<Rightarrow> Inl e
      | Inr index \<Rightarrow>
          (case mapEachResult pol
                  (run_query queryField queryValue (mostRecentTimestamp index) (coll_c db)) of
             Inl e \<Rightarrow> Inl e
           | Inr found \<Rightarrow>
               (let newPuzzles = filter (\<lambda>a. fst a \<notin> set (idx_i index)) found
                in if newPuzzles \<noteq> []
                   then (let index' = updateIndex index newPuzzles
                         in Inr (newPuzzles, index',
                                 db\<lparr>coll_i := AList.update indexDocId (Shaped index') (coll_i db)\<rparr>))
                   else Inr (newPuzzles, index, db))))"

subsection \<open>Steps 3 and 4: the working list\<close>

text \<open>
  \<^verbatim>\<open>idsAndTimes.splice(i, 1)\<close> removes the element at position \<open>i\<close>, and nothing when
  \<open>i\<close> is past the end. \<^verbatim>\<open>const valAt = idsAndTimes[i]; if (valAt !== undefined) valAt[1] =
  goLiveTime\<close> overwrites the time of the pair at position \<open>i\<close>, when there is one.
\<close>

definition splice1 :: "nat \<Rightarrow> 'a list \<Rightarrow> 'a list" where
  "splice1 i xs = take i xs @ drop (Suc i) xs"

definition setTime :: "nat \<Rightarrow> timestamp \<Rightarrow> (string \<times> timestamp) list \<Rightarrow> (string \<times> timestamp) list" where
  "setTime i goLiveTime xs = (if i < length xs then xs[i := (fst (xs ! i), goLiveTime)] else xs)"

text \<open>
  \<^verbatim>\<open>index.pv?.includes(pid)\<close>: false for a missing array. \<^verbatim>\<open>indexOf\<close> is the first
  position of the element; the source calls it only after \<^verbatim>\<open>includes\<close> has succeeded.
  \<^verbatim>\<open>index.pvut[pvidx]\<close> is \<^verbatim>\<open>undefined\<close> past the end of the array.
\<close>

definition arrIncludes :: "'a list option \<Rightarrow> 'a \<Rightarrow> bool" where
  "arrIncludes l x = (case l of None \<Rightarrow> False | Some xs \<Rightarrow> x \<in> set xs)"

definition indexOf :: "'a list \<Rightarrow> 'a \<Rightarrow> nat" where
  "indexOf xs x = length (takeWhile (\<lambda>y. y \<noteq> x) xs)"

definition arrayAt :: "'a list \<Rightarrow> nat \<Rightarrow> 'a option" where
  "arrayAt xs n = (if n < length xs then Some (xs ! n) else None)"

text \<open>
  The loop \<^verbatim>\<open>for (const [i, pid] of copy)\<close> over the reversed entries of \<^verbatim>\<open>index.i\<close>; the
  \<^verbatim>\<open>throw\<close> ends it with an error.
\<close>

fun filterLoop ::
  "timestamp \<Rightarrow> PuzzleIndexT \<Rightarrow> (string \<times> timestamp) list \<Rightarrow> (nat \<times> string) list
     \<Rightarrow> error + (string \<times> timestamp) list" where
  "filterLoop now index idsAndTimes [] = Inr idsAndTimes"
| "filterLoop now index idsAndTimes ((i, pid) # rest) =
     (if arrIncludes (idx_pv index) pid then filterLoop now index (splice1 i idsAndTimes) rest
      else if arrIncludes (idx_pvui index) pid \<and> idx_pvut index \<noteq> None then
        (case arrayAt (orEmpty (idx_pvut index)) (indexOf (orEmpty (idx_pvui index)) pid) of
           None \<Rightarrow> Inl (MissingFromPvut pid)
         | Some goLiveTime \<Rightarrow>
             if now < goLiveTime then filterLoop now index (splice1 i idsAndTimes) rest
             else filterLoop now index (setTime i goLiveTime idsAndTimes) rest)
      else filterLoop now index idsAndTimes rest)"

text \<open>
  \<^verbatim>\<open>zip\<close> of fp-ts stops at the shorter array, as \<open>zip\<close> does;
  \<^verbatim>\<open>Array.from(index.i.entries())\<close> is \<open>enumerate 0\<close>.
\<close>

definition filterPrivate :: "timestamp \<Rightarrow> PuzzleIndexT \<Rightarrow> error + (string \<times> timestamp) list" where
  "filterPrivate now index =
     filterLoop now index (zip (idx_i index) (idx_t index)) (rev (enumerate 0 (idx_i index)))"

subsection \<open>Step 5: sorting, slicing and assembling the page\<close>

text \<open>
  \<^verbatim>\<open>idsAndTimes.sort((a, b) => b[1].toMillis() - a[1].toMillis())\<close>: a stable sort, newest
  first. \<^verbatim>\<open>slice(start, start + page_size)\<close> for the natural numbers a page request carries.
\<close>

definition sortNewestFirst :: "(string \<times> timestamp) list \<Rightarrow> (string \<times> timestamp) list" where
  "sortNewestFirst idsAndTimes = sort_key (\<lambda>a. - snd a) idsAndTimes"

definition entriesForPage :: "nat \<Rightarrow> nat \<Rightarrow> (string \<times> timestamp) list \<Rightarrow> string list" where
  "entriesForPage page page_size idsAndTimes =
     (let start = page * page_size in map fst (take page_size (drop start idsAndTimes)))"

text \<open>
  The loop \<^verbatim>\<open>for (const puzzleId of entriesForPage)\<close>. \<^verbatim>\<open>puzzleFromDB\<close> (lib/types) is
  not among the sources and is the parameter \<open>puzzleFromDB\<close>; a \<^verbatim>\<open>PuzzleResult\<close> is the
  pair of the document id and its value.
\<close>

fun assemblePage ::
  "('x DBPuzzleT \<Rightarrow> 'r) \<Rightarrow> (string \<times> 'x DBPuzzleT) list \<Rightarrow> (string \<times> 'x puzzle_data) list
     \<Rightarrow> string list \<Rightarrow> (string \<times> 'r) list" where
  "assemblePage puzzleFromDB newPuzzles docs [] = []"
| "assemblePage puzzleFromDB newPuzzles docs (puzzleId # rest) =
     (case find (\<lambda>x. fst x = puzzleId) newPuzzles of
        Some alreadyHave \<Rightarrow>
          (fst alreadyHave, puzzleFromDB (snd alreadyHave))
            # assemblePage puzzleFromDB newPuzzles docs rest
      | None \<Rightarrow>
          (case map_of docs puzzleId of
             None \<Rightarrow> assemblePage puzzleFromDB newPuzzles docs rest
           | Some d \<Rightarrow>
               (case DBPuzzleV_decode d of
                  Some dbpuzz \<Rightarrow>
                    (puzzleId, puzzleFromDB dbpuzz) # assemblePage puzzleFromDB newPuzzles docs rest
                | None \<Rightarrow> assemblePage puzzleFromDB newPuzzles docs rest)))"

text \<open>
  The whole function. Its result is the value returned or the error thrown, together with
  the store it leaves behind (an error thrown after the index was written leaves the
  written index). \<^verbatim>\<open>newPuzzles.reverse()\<close> has reversed the array in place by the time the
  assembly loop searches it.
\<close>

definition getPuzzlesForPage ::
  "bad_doc_policy \<Rightarrow> ('x DBPuzzleT \<Rightarrow> 'r) \<Rightarrow> timestamp \<Rightarrow> string \<Rightarrow> string \<Rightarrow> qvalue \<Rightarrow> nat \<Rightarrow> nat
     \<Rightarrow> 'x firestore \<Rightarrow> (error + ((string \<times> 'r) list \<times> nat)) \<times> 'x firestore" where
  "getPuzzlesForPage pol puzzleFromDB now indexDocId queryField queryValue page page_size db =
     (case refreshIndex pol indexDocId queryField queryValue db of
        Inl e \<Rightarrow> (Inl e, db)
      | Inr (newPuzzles, index, db') \<Rightarrow>
          (case filterPrivate now index of
             Inl e \<Rightarrow> (Inl e, db')
           | Inr idsAndTimes \<Rightarrow>
               (let idsAndTimes' = sortNewestFirst idsAndTimes;
                    puzzles = assemblePage puzzleFromDB (rev newPuzzles) (coll_c db')
                                (entriesForPage page page_size idsAndTimes')
                in (Inr (puzzles, length idsAndTimes'), db'))))"

definition getPuzzlesForConstructorPage ::
  "bad_doc_policy \<Rightarrow> ('x DBPuzzleT \<Rightarrow> 'r) \<Rightarrow> timestamp \<Rightarrow> string \<Rightarrow> nat \<Rightarrow> nat
     \<Rightarrow> 'x firestore \<Rightarrow> (error + ((string \<times> 'r) list \<times> nat)) \<times> 'x firestore" where
  "getPuzzlesForConstructorPage pol puzzleFromDB now userId page page_size db =
     getPuzzlesForPage pol puzzleFromDB now userId ''a'' (QString userId) page page_size db"

definition getPuzzlesForFeatured ::
  "bad_doc_policy \<Rightarrow> ('x DBPuzzleT \<Rightarrow> 'r) \<Rightarrow> timestamp \<Rightarrow> nat \<Rightarrow> nat
     \<Rightarrow> 'x firestore \<Rightarrow> (error + ((string \<times> 'r) list \<times> nat)) \<times> 'x firestore" where
  "getPuzzlesForFeatured pol puzzleFromDB now page page_size db =
     getPuzzlesForPage pol puzzleFromDB now ''featured'' ''f'' (QBool True) page page_size db"

subsection \<open>The working list in the spec's words\<close>

text \<open>
  Section 4.4 of the spec, steps 3 and 4: the working list pairs every id with its
  effective timestamp, the publish time, or the go-live time for a private-until entry;
  permanently private entries are dropped, and so are private-until entries whose go-live
  time is still in the future. The go-live time of an id is the one the index pairs with
  it: \<^verbatim>\<open>pvut\<close> at the position of the id in \<^verbatim>\<open>pvui\<close>.
\<close>

definition isPrivate :: "PuzzleIndexT \<Rightarrow> string \<Rightarrow> bool" where
  "isPrivate index pid = arrIncludes (idx_pv index) pid"

definition isPrivateUntil :: "PuzzleIndexT \<Rightarrow> string \<Rightarrow> bool" where
  "isPrivateUntil index pid = (arrIncludes (idx_pvui index) pid \<and> idx_pvut index \<noteq> None)"

definition goLiveOf :: "PuzzleIndexT \<Rightarrow> string \<Rightarrow> timestamp option" where
  "goLiveOf index pid =
     (if isPrivateUntil index pid
      then arrayAt (orEmpty (idx_pvut index)) (indexOf (orEmpty (idx_pvui index)) pid)
      else None)"

definition spec_workingEntry ::
  "timestamp \<Rightarrow> PuzzleIndexT \<Rightarrow> string \<times> timestamp \<Rightarrow> (string \<times> timestamp) option" where
  "spec_workingEntry now index e =
     (if isPrivate index (fst e) then None
      else case goLiveOf index (fst e) of
             None \<Rightarrow> Some e
           | Some goLive \<Rightarrow> if now < goLive then None else Some (fst e, goLive))"

definition spec_workingList :: "timestamp \<Rightarrow> PuzzleIndexT \<Rightarrow> (string \<times> timestamp) list" where
  "spec_workingList now index =
     List.map_filter (spec_workingEntry now index) (zip (idx_i index) (idx_t index))"

text \<open>
  The ids for which the source throws \<^verbatim>\<open>mising from pvut but in pvui\<close>: listed in
  \<^verbatim>\<open>pvui\<close>, not permanently private, and \<^verbatim>\<open>pvut\<close> too short to hold their go-live time.
\<close>

definition missingGoLive :: "PuzzleIndexT \<Rightarrow> string \<Rightarrow> bool" where
  "missingGoLive index pid =
     (\<not> isPrivate index pid \<and> isPrivateUntil index pid \<and> goLiveOf index pid = None)"

text \<open>What one iteration of the filter loop does to the pair at its position.\<close>

datatype action = Drop | Retime timestamp | Keep

definition entryAction :: "timestamp \<Rightarrow> PuzzleIndexT \<Rightarrow> string \<Rightarrow> action" where
  "entryAction now index pid =
     (if isPrivate index pid then Drop
      else case goLiveOf index pid of
             None \<Rightarrow> Keep
           | Some goLive \<Rightarrow> if now < goLive then Drop else Retime goLive)"

fun applyAction :: "action \<Rightarrow> nat \<Rightarrow> (string \<times> timestamp) list \<Rightarrow> (string \<times> timestamp) list" where
  "applyAction Drop i xs = splice1 i xs"
| "applyAction (Retime goLive) i xs = setTime i goLive xs"
| "applyAction Keep i xs = xs"

text \<open>The documents of a query result that decode, each with its id.\<close>

definition decoded :: "(timestamp \<times> string \<times> 'x puzzle_data) list \<Rightarrow> (string \<times> 'x DBPuzzleT) list" where
  "decoded q =
     List.map_filter (\<lambda>c. map_option (Pair (fst (snd c))) (DBPuzzleV_decode (snd (snd c)))) q"

text \<open>What the page assembly reads for one id: a new puzzle of this run, or the stored
  document when it exists and decodes.\<close>

definition readPuzzle ::
  "(string \<times> 'x DBPuzzleT) list \<Rightarrow> (string \<times> 'x puzzle_data) list \<Rightarrow> string
     \<Rightarrow> (string \<times> 'x DBPuzzleT) option" where
  "readPuzzle newPuzzles docs puzzleId =
     (case find (\<lambda>x. fst x = puzzleId) newPuzzles of
        Some alreadyHave \<Rightarrow> Some alreadyHave
      | None \<Rightarrow>
          (case map_of docs puzzleId of
             None \<Rightarrow> None
           | Some d \<Rightarrow> map_option (Pair puzzleId) (DBPuzzleV_decode d)))"

subsection \<open>The example of the spec\<close>

text \<open>
  An index with the entries (100, A) and (90, B), and a store in which the document C,
  published at 110, is new.
\<close>

definition exampleDoc :: "string \<Rightarrow> timestamp \<Rightarrow> unit puzzle_data" where
  "exampleDoc author ts =
     \<lparr>raw_a = Some author, raw_f = None, raw_p = Some ts, raw_pv = None, raw_pvu = None,
      raw_rest = Some ()\<rparr>"

definition exampleIndex :: PuzzleIndexT where
  "exampleIndex =
     \<lparr>idx_t = [100, 90], idx_i = [''A'', ''B''], idx_pv = None, idx_pvui = None, idx_pvut = None\<rparr>"

definition exampleStore :: "unit firestore" where
  "exampleStore =
     \<lparr>coll_i = [(''u'', Shaped exampleIndex)],
      coll_c = [(''A'', exampleDoc ''u'' 100), (''B'', exampleDoc ''u'' 90),
                (''C'', exampleDoc ''u'' 110)]\<rparr>"

text \<open>The query discovers no puzzle that the index does not list yet (or the refresh fails).\<close>

definition nothingNew :: "bad_doc_policy \<Rightarrow> string \<Rightarrow> string \<Rightarrow> qvalue \<Rightarrow> 'x firestore \<Rightarrow> bool" where
  "nothingNew pol indexDocId queryField queryValue db =
     (case refreshIndex pol indexDocId queryField queryValue db of
        Inl e \<Rightarrow> True
      | Inr r \<Rightarrow> fst r = [])"

definition presentPuzzle ::
  "('x DBPuzzleT \<Rightarrow> 'r) \<Rightarrow> (string \<times> 'x DBPuzzleT) list \<Rightarrow> (string \<times> 'x puzzle_data) list \<Rightarrow> string
     \<Rightarrow> (string \<times> 'r) option" where
  "presentPuzzle puzzleFromDB newPuzzles docs puzzleId =
     map_option (\<lambda>a. (fst a, puzzleFromDB (snd a))) (readPuzzle newPuzzles docs puzzleId)"

text \<open>A store whose index document does not have the shape of an index.\<close>

definition corruptStore :: "unit firestore" where
  "corruptStore = \<lparr>coll_i = [(''u'', Unshaped)], coll_c = [(''A'', exampleDoc ''u'' 100)]\<rparr>"

text \<open>A store whose index still lists the id A of a document that no longer exists.\<close>

definition ghostStore :: "unit firestore" where
  "ghostStore = \<lparr>coll_i = [(''u'', Shaped exampleIndex)], coll_c = [(''B'', exampleDoc ''u'' 90)]\<rparr>"

text \<open>
  An index with a permanently private id D, an id E that goes live at 500 and an id F
  that went live at 50.
\<close>

definition privacyIndex :: PuzzleIndexT where
  "privacyIndex =
     \<lparr>idx_t = [120, 115, 112, 110], idx_i = [''D'', ''E'', ''F'', ''C''], idx_pv = Some [''D''],
      idx_pvui = Some [''E'', ''F''], idx_pvut = Some [500, 50]\<rparr>"

text \<open>A store for the index \<open>privacyIndex\<close> that holds all four documents.\<close>

definition goLiveStore :: "unit firestore" where
  "goLiveStore =
     \<lparr>coll_i = [(''u'', Shaped privacyIndex)],
      coll_c = [(''C'', exampleDoc ''u'' 110), (''D'', exampleDoc ''u'' 120),
                (''E'', exampleDoc ''u'' 115), (''F'', exampleDoc ''u'' 112)]\<rparr>"

text \<open>A store for the index \<open>privacyIndex\<close>, with nothing new to discover.\<close>

definition privacyStore :: "unit firestore" where
  "privacyStore =
     \<lparr>coll_i = [(''u'', Shaped privacyIndex)],
      coll_c = [(''C'', exampleDoc ''u'' 110), (''F'', exampleDoc ''u'' 112)]\<rparr>"

text \<open>
  A store whose index lists C, A and B: the document C is readable, A does not exist, and
  B does not pass \<^verbatim>\<open>DBPuzzleV\<close>.
\<close>

definition brokenStore :: "unit firestore" where
  "brokenStore =
     \<lparr>coll_i = [(''u'', Shaped \<lparr>idx_t = [110, 100, 90], idx_i = [''C'', ''A'', ''B''],
                                idx_pv = None, idx_pvui = None, idx_pvut = None\<rparr>)],
      coll_c = [(''C'', exampleDoc ''u'' 110), (''B'', (exampleDoc ''u'' 90)\<lparr>raw_rest := None\<rparr>)]\<rparr>"

section \<open>The comment form of Comments.tsx\<close>

text \<open>
  A JavaScript string is a sequence of UTF-16 code units; \<^verbatim>\<open>length\<close> and \<^verbatim>\<open>substring\<close> count
  code units.
\<close>

type_synonym jsstring = "16 word list"

definition COMMENT_LENGTH_LIMIT :: nat where
  "COMMENT_LENGTH_LIMIT = 280"

definition sanitize :: "jsstring \<Rightarrow> jsstring" where
  "sanitize input = take COMMENT_LENGTH_LIMIT input"

text \<open>
  \<^verbatim>\<open>String.prototype.trim\<close> removes the leading and trailing code units that are white
  space or line terminators: TAB, LF, VT, FF, CR, SP, NBSP, U+1680, U+2000 to U+200A,
  U+2028, U+2029, U+202F, U+205F, U+3000 and U+FEFF.
\<close>

definition isWhiteSpace :: "16 word \<Rightarrow> bool" where
  "isWhiteSpace u =
     (u \<in> set [0x0009, 0x000A, 0x000B, 0x000C, 0x000D, 0x0020, 0x00A0, 0x1680, 0x2028, 0x2029,
               0x202F, 0x205F, 0x3000, 0xFEFF]
      \<or> (0x2000 \<le> u \<and> u \<le> 0x200A))"

definition trim :: "jsstring \<Rightarrow> jsstring" where
  "trim s = rev (dropWhile isWhiteSpace (rev (dropWhile isWhiteSpace s)))"

record CommentFormProps =
  prop_uid :: string
  prop_displayName :: string
  prop_username :: "string option"
  prop_solveTime :: nat
  prop_didCheat :: bool
  prop_puzzleId :: string
  prop_replyToId :: "string option"

text \<open>\<^verbatim>\<open>CommentForModerationT\<close>, the fields with the prefix \<open>cm_\<close>.\<close>

record CommentForModerationT =
  cm_c :: jsstring
  cm_a :: string
  cm_n :: string
  cm_t :: nat
  cm_ch :: bool
  cm_p :: timestamp
  cm_pid :: string
  cm_rt :: "string option"
  cm_un :: "string option"

text \<open>
  The state the form works on: its React state (\<^verbatim>\<open>commentText\<close>, \<^verbatim>\<open>submittedComment\<close>),
  the collection \<^verbatim>\<open>cfm\<close>, the uploads whose promise has not resolved yet, and the comments
  kept in local storage.
\<close>

record form_world =
  commentText :: jsstring
  submittedComment :: "(string \<times> CommentForModerationT) option"
  cfm :: "CommentForModerationT list"
  uploading :: "CommentForModerationT list"
  forSession :: "(string \<times> CommentForModerationT) list"

definition initialForm :: form_world where
  "initialForm =
     \<lparr>commentText = [], submittedComment = None, cfm = [], uploading = [], forSession = []\<rparr>"

text \<open>\<^verbatim>\<open>onChange={(e) => setCommentText(sanitize(e.target.value))}\<close>\<close>

definition onChange :: "jsstring \<Rightarrow> form_world \<Rightarrow> form_world" where
  "onChange v st = st\<lparr>commentText := sanitize v\<rparr>"

text \<open>
  \<^verbatim>\<open>submitComment\<close>: an empty trimmed text returns at once; otherwise the comment is added
  to \<^verbatim>\<open>cfm\<close>. \<^verbatim>\<open>if (props.username)\<close> holds for a non-empty string.
\<close>

definition submitComment :: "CommentFormProps \<Rightarrow> timestamp \<Rightarrow> form_world \<Rightarrow> form_world" where
  "submitComment props now st =
     (let textToSubmit = trim (commentText st)
      in if textToSubmit = [] then st
         else (let comment =
                     \<lparr>cm_c = textToSubmit, cm_a = prop_uid props, cm_n = prop_displayName props,
                      cm_t = prop_solveTime props, cm_ch = prop_didCheat props, cm_p = now,
                      cm_pid = prop_puzzleId props, cm_rt = prop_replyToId props,
                      cm_un = (case prop_username props of
                                 None \<Rightarrow> None
                               | Some u \<Rightarrow> if u = [] then None else Some u)\<rparr>
               in st\<lparr>cfm := cfm st @ [comment], uploading := uploading st @ [comment]\<rparr>))"

text \<open>
  The continuation \<^verbatim>\<open>.then((ref) => ...)\<close> of the oldest upload: the form is replaced by
  the submitted comment, and the comment is pushed to local storage.
\<close>

definition uploaded :: "string \<Rightarrow> form_world \<Rightarrow> form_world" where
  "uploaded refId st =
     (case uploading st of
        [] \<Rightarrow> st
      | comment # rest \<Rightarrow>
          st\<lparr>uploading := rest, submittedComment := Some (refId, comment),
             forSession := forSession st @ [(refId, comment)]\<rparr>)"

text \<open>
  What can happen to a form: the text area changes, the form is submitted, an upload
  resolves. Once \<^verbatim>\<open>submittedComment\<close> is set the component renders the comment instead
  of the form, so there is nothing left to change or to submit.
\<close>

datatype form_event = Change jsstring | Submit CommentFormProps timestamp | Uploaded string

fun formStep :: "form_world \<Rightarrow> form_event \<Rightarrow> form_world" where
  "formStep st (Change v) = (if submittedComment st = None then onChange v st else st)"
| "formStep st (Submit props now) =
     (if submittedComment st = None then submitComment props now st else st)"
| "formStep st (Uploaded refId) = uploaded refId st"

definition runForm :: "form_event list \<Rightarrow> form_world" where
  "runForm events = foldl formStep initialForm events"

text \<open>A user types "  hi  " and submits.\<close>

definition exampleProps :: CommentFormProps where
  "exampleProps =
     \<lparr>prop_uid = ''mike'', prop_displayName = ''Mike'', prop_username = None, prop_solveTime = 55,
      prop_didCheat = False, prop_puzzleId = ''A'', prop_replyToId = None\<rparr>"

definition exampleEvents :: "form_event list" where
  "exampleEvents = [Change [0x20, 0x20, 0x68, 0x69, 0x20, 0x20], Submit exampleProps 1000]"

text \<open>What the claim asks of a stored comment, and the invariant of the form that gives it.\<close>

definition storedOk :: "CommentForModerationT \<Rightarrow> bool" where
  "storedOk cm =
     (cm_c cm \<noteq> [] \<and> length (cm_c cm) \<le> COMMENT_LENGTH_LIMIT
      \<and> \<not> isWhiteSpace (hd (cm_c cm)) \<and> \<not> isWhiteSpace (last (cm_c cm))
      \<and> (\<exists>input. cm_c cm = trim (sanitize input)))"

definition formInv :: "form_world \<Rightarrow> bool" where
  "formInv st =
     ((\<exists>input. commentText st = sanitize input)
      \<and> (\<forall>cm\<in>set (cfm st). storedOk cm)
      \<and> (\<forall>cm\<in>set (uploading st). storedOk cm)
      \<and> (\<forall>e\<in>set (forSession st). storedOk (snd e))
      \<and> (\<forall>e. submittedComment st = Some e \<longrightarrow> storedOk (snd e)))"

section \<open>The notification emails of serverOnly.ts (queueEmailForUser)\<close>

text \<open>
  A notification (lib/notifications is not among the sources): its id, the user it is for,
  its kind (\<^verbatim>\<open>comment\<close>, \<^verbatim>\<open>reply\<close>, \<^verbatim>\<open>newpuzzle\<close>, \<^verbatim>\<open>featured\<close>), the flags read and
  emailed, and the puzzle it is about. The fields carry the prefix \<open>nt_\<close>.
\<close>

datatype notification_kind = CommentKind | ReplyKind | NewPuzzleKind | FeaturedKind

record NotificationT =
  nt_id :: string
  nt_u :: string
  nt_k :: notification_kind
  nt_r :: bool
  nt_e :: bool
  nt_p :: string
  nt_pn :: string

record AccountPrefsT =
  unsubs :: "string list option"

text \<open>A document \<^verbatim>\<open>prefs/userId\<close>, seen through \<^verbatim>\<open>AccountPrefsV.decode\<close>.\<close>

datatype prefs_doc = InvalidPrefs | ValidPrefs AccountPrefsT

record 'm mail_doc =
  mail_to :: "string list"
  mail_message :: 'm

text \<open>
  The store: the preference documents, the email address \<^verbatim>\<open>getUser(userId)?.email\<close> of
  each user, the collection \<^verbatim>\<open>mail\<close> and the collection \<^verbatim>\<open>n\<close> of notifications.
\<close>

record 'm mail_world =
  prefsDocs :: "(string \<times> prefs_doc) list"
  userEmail :: "(string \<times> string option) list"
  mail :: "'m mail_doc list"
  notificationDocs :: "(string \<times> NotificationT) list"

text \<open>\<^verbatim>\<open>prefs?.unsubs?.includes(flag)\<close>\<close>

definition unsubscribed :: "AccountPrefsT option \<Rightarrow> string \<Rightarrow> bool" where
  "unsubscribed prefs flag = (case prefs of None \<Rightarrow> False | Some pr \<Rightarrow> arrIncludes (unsubs pr) flag)"

text \<open>
  The notifications the email reports, which are the ones marked read afterwards. The
  source collects them section by section (comments and replies grouped by puzzle, new
  puzzles, featured puzzles); the updates do not depend on their order.
\<close>

definition readNotifications :: "AccountPrefsT option \<Rightarrow> NotificationT list \<Rightarrow> NotificationT list" where
  "readNotifications prefs ns =
     (if \<not> unsubscribed prefs ''comments''
      then filter (\<lambda>x. nt_k x = CommentKind) ns @ filter (\<lambda>x. nt_k x = ReplyKind) ns
      else [])
     @ (if \<not> unsubscribed prefs ''newpuzzles'' then filter (\<lambda>x. nt_k x = NewPuzzleKind) ns else [])
     @ (if \<not> unsubscribed prefs ''featured'' then filter (\<lambda>x. nt_k x = FeaturedKind) ns else [])"

text \<open>\<^verbatim>\<open>db.doc(`n/${n.id}`).update({ r: true })\<close> for every notification of \<open>read\<close>.\<close>

definition markRead :: "NotificationT list \<Rightarrow> (string \<times> NotificationT) list \<Rightarrow> (string \<times> NotificationT) list" where
  "markRead read docs =
     map (\<lambda>d. if fst d \<in> nt_id ` set read then (fst d, (snd d)\<lparr>nt_r := True\<rparr>) else d) docs"

text \<open>
  \<^verbatim>\<open>queueEmailForUser\<close>. The sort by \<^verbatim>\<open>localeCompare\<close> is the parameter \<open>sortById\<close>, and
  the subject, text and html of the message, which the source formats from the preferences
  and the sorted notifications, are the parameter \<open>compose\<close>. The markdown is empty exactly
  when no notification is reported. The result is the store the call leaves.
\<close>

definition queueEmailForUser ::
  "(AccountPrefsT option \<Rightarrow> NotificationT list \<Rightarrow> 'm) \<Rightarrow> (NotificationT list \<Rightarrow> NotificationT list)
     \<Rightarrow> string \<Rightarrow> NotificationT list \<Rightarrow> 'm mail_world \<Rightarrow> 'm mail_world" where
  "queueEmailForUser compose sortById userId notifications db =
     (let sorted = sortById notifications;
          prefs = (case map_of (prefsDocs db) userId of
                     None \<Rightarrow> None
                   | Some InvalidPrefs \<Rightarrow> None
                   | Some (ValidPrefs pr) \<Rightarrow> Some pr)
      in if unsubscribed prefs ''all'' then db
         else (case map_of (userEmail db) userId of
                 None \<Rightarrow> db
               | Some None \<Rightarrow> db
               | Some (Some toAddress) \<Rightarrow>
                   if toAddress = [] then db
                   else (let read = readNotifications prefs sorted
                         in if read = [] then db
                            else db\<lparr>mail := mail db @ [\<lparr>mail_to = [toAddress],
                                                        mail_message = compose prefs sorted\<rparr>],
                                    notificationDocs := markRead read (notificationDocs db)\<rparr>)))"

text \<open>A user who has unsubscribed from everything and has two unread notifications.\<close>

definition exampleNotifications :: "NotificationT list" where
  "exampleNotifications =
     [\<lparr>nt_id = ''n1'', nt_u = ''mike'', nt_k = CommentKind, nt_r = False, nt_e = False,
       nt_p = ''A'', nt_pn = ''Puzzle A''\<rparr>,
      \<lparr>nt_id = ''n2'', nt_u = ''mike'', nt_k = FeaturedKind, nt_r = False, nt_e = False,
       nt_p = ''B'', nt_pn = ''Puzzle B''\<rparr>]"

definition exampleMailWorld :: "(string \<times> nat) mail_world" where
  "exampleMailWorld =
     \<lparr>prefsDocs = [(''mike'', ValidPrefs \<lparr>unsubs = Some [''all'']\<rparr>)],
      userEmail = [(''mike'', Some ''mike@example.com'')],
      mail = [],
      notificationDocs = map (\<lambda>x. (nt_id x, x)) exampleNotifications\<rparr>"

section \<open>The fill and publish checks of the spec (sections 3 and 4.3)\<close>

text \<open>
  The reducer and the grid library that decide these checks are not among the sources
  (\<^verbatim>\<open>Preview.tsx\<close> only shows \<^verbatim>\<open>publishErrors\<close> and \<^verbatim>\<open>publishWarnings\<close>, and reads
  \<^verbatim>\<open>completedWord\<close> of an entry); the definitions of this section follow the spec.
\<close>

datatype cell = Letter string | Block | Empty

datatype direction = Across | Down

datatype symmetry =
  NoSymmetry | Rotational | MirrorHorizontal | MirrorVertical | DiagonalNWSE | DiagonalNESW

text \<open>Modelled from the spec: an Entry (section 3), with its direction, starting cell
  index, length, ordered cell indices and label number.\<close>

record entry =
  en_direction :: direction
  en_start :: nat
  en_length :: nat
  en_cells :: "nat list"
  en_label :: nat

text \<open>Modelled from the spec: a Grid snapshot (section 3), a W times H matrix of cells in
  row-major order with its declared symmetry and the entries derived from it.\<close>

record grid =
  g_width :: nat
  g_height :: nat
  g_cells :: "cell list"
  g_symmetry :: symmetry
  g_entries :: "entry list"

definition cellAt :: "grid \<Rightarrow> nat \<Rightarrow> cell option" where
  "cellAt g i = (if i < length (g_cells g) then Some (g_cells g ! i) else None)"

text \<open>Modelled from the spec: a cell holds a non-empty Letter or rebus value.\<close>

definition holdsLetter :: "grid \<Rightarrow> nat \<Rightarrow> bool" where
  "holdsLetter g i = (case cellAt g i of Some (Letter s) \<Rightarrow> s \<noteq> [] | _ \<Rightarrow> False)"

definition letterAt :: "grid \<Rightarrow> nat \<Rightarrow> string" where
  "letterAt g i = (case cellAt g i of Some (Letter s) \<Rightarrow> s | _ \<Rightarrow> [])"

text \<open>Modelled from the spec: \<^verbatim>\<open>isEntryComplete(entry, grid)\<close>, true iff every cell index
  in the entry holds a non-empty Letter or rebus value.\<close>

definition isEntryComplete :: "entry \<Rightarrow> grid \<Rightarrow> bool" where
  "isEntryComplete e g = list_all (holdsLetter g) (en_cells e)"

text \<open>Modelled from the spec: \<^verbatim>\<open>completedWord(entry, grid)\<close> returns the concatenated
  letters if the entry is complete, else null.\<close>

definition completedWord :: "entry \<Rightarrow> grid \<Rightarrow> string option" where
  "completedWord e g =
     (if isEntryComplete e g then Some (concat (map (letterAt g) (en_cells e))) else None)"

text \<open>Modelled from the spec: a Clue mapping, from direction and label number to clue
  text; an entry has a clue when the mapping gives it a non-empty text.\<close>

type_synonym clues = "direction \<times> nat \<Rightarrow> string option"

definition hasClue :: "clues \<Rightarrow> entry \<Rightarrow> bool" where
  "hasClue cl e =
     (case cl (en_direction e, en_label e) of None \<Rightarrow> False | Some text \<Rightarrow> text \<noteq> [])"

text \<open>
  Modelled from the spec: whether the declared symmetry holds of the Block layout. The
  spec names the categories and not their geometry: rotational is the half turn, the
  horizontal mirror reverses each row, the vertical mirror reverses each column, and the
  two diagonal ones transpose a square grid.
\<close>

definition isBlockAt :: "grid \<Rightarrow> nat \<Rightarrow> nat \<Rightarrow> bool" where
  "isBlockAt g r c =
     (r < g_height g \<and> c < g_width g \<and> cellAt g (r * g_width g + c) = Some Block)"

definition partner :: "symmetry \<Rightarrow> grid \<Rightarrow> nat \<times> nat \<Rightarrow> nat \<times> nat" where
  "partner declared g rc =
     (case declared of
        NoSymmetry \<Rightarrow> rc
      | Rotational \<Rightarrow> (g_height g - 1 - fst rc, g_width g - 1 - snd rc)
      | MirrorHorizontal \<Rightarrow> (fst rc, g_width g - 1 - snd rc)
      | MirrorVertical \<Rightarrow> (g_height g - 1 - fst rc, snd rc)
      | DiagonalNWSE \<Rightarrow> (snd rc, fst rc)
      | DiagonalNESW \<Rightarrow> (g_width g - 1 - snd rc, g_height g - 1 - fst rc))"

definition symmetryHolds :: "grid \<Rightarrow> bool" where
  "symmetryHolds g =
     ((g_symmetry g \<in> {DiagonalNWSE, DiagonalNESW} \<longrightarrow> g_width g = g_height g)
      \<and> list_all
          (\<lambda>r. list_all
                 (\<lambda>c. isBlockAt g r c
                        = isBlockAt g (fst (partner (g_symmetry g) g (r, c)))
                            (snd (partner (g_symmetry g) g (r, c))))
                 [0..<g_width g])
          [0..<g_height g])"

text \<open>
  Modelled from the spec: \<^verbatim>\<open>validateForPublish(grid, clues)\<close>, a list of errors and
  warnings: (a) an error for each entry without a non-empty clue, (b) the warnings of the
  minimum size and connectivity heuristics, which the spec does not define and which are
  the parameter \<open>heuristics\<close>, (c) a warning when the declared symmetry does not hold.
  Errors block publishing, warnings do not.
\<close>

datatype problem = MissingClue direction nat | Heuristic string | SymmetryMismatch symmetry

datatype issue = Error problem | Warning problem

definition validateForPublish :: "(grid \<Rightarrow> string list) \<Rightarrow> grid \<Rightarrow> clues \<Rightarrow> issue list" where
  "validateForPublish heuristics g cl =
     map (\<lambda>e. Error (MissingClue (en_direction e) (en_label e)))
         (filter (\<lambda>e. \<not> hasClue cl e) (g_entries g))
     @ map (\<lambda>w. Warning (Heuristic w)) (heuristics g)
     @ (if symmetryHolds g then [] else [Warning (SymmetryMismatch (g_symmetry g))])"

definition publishErrors :: "issue list \<Rightarrow> problem list" where
  "publishErrors issues = List.map_filter (\<lambda>i. case i of Error p \<Rightarrow> Some p | Warning _ \<Rightarrow> None) issues"

definition publishWarnings :: "issue list \<Rightarrow> problem list" where
  "publishWarnings issues = List.map_filter (\<lambda>i. case i of Warning p \<Rightarrow> Some p | Error _ \<Rightarrow> None) issues"

definition canPublish :: "issue list \<Rightarrow> bool" where
  "canPublish issues = (publishErrors issues = [])"

text \<open>
  A 2 by 2 grid with the block in the top right corner, declared rotationally symmetric
  (which it is not), with the entries 1-Down (cells 0 and 2) and 2-Across (cells 2 and 3).
\<close>

definition exampleGrid :: grid where
  "exampleGrid =
     \<lparr>g_width = 2, g_height = 2, g_cells = [Letter ''A'', Block, Letter ''B'', Letter ''C''],
      g_symmetry = Rotational,
      g_entries = [\<lparr>en_direction = Down, en_start = 0, en_length = 2, en_cells = [0, 2], en_label = 1\<rparr>,
                   \<lparr>en_direction = Across, en_start = 2, en_length = 2, en_cells = [2, 3], en_label = 2\<rparr>]\<rparr>"

definition exampleClues :: clues where
  "exampleClues = [(Down, 1) \<mapsto> ''First two letters'', (Across, 2) \<mapsto> ''Next two letters'']"

section \<open>Properties of the puzzle index\<close>

lemma addToIndex_i: "idx_i (addToIndex index np) = fst np # idx_i index"
  by (simp add: addToIndex_def Let_def split: option.split)

lemma addToIndex_t: "idx_t (addToIndex index np) = pz_p (snd np) # idx_t index"
  by (simp add: addToIndex_def Let_def split: option.split)

lemma updateIndex_i: "idx_i (updateIndex index newPuzzles) = map fst newPuzzles @ idx_i index"
  unfolding updateIndex_def
  by (induction newPuzzles) (simp_all add: addToIndex_i)

lemma updateIndex_t:
  "idx_t (updateIndex index newPuzzles) = map (\<lambda>a. pz_p (snd a)) newPuzzles @ idx_t index"
  unfolding updateIndex_def
  by (induction newPuzzles) (simp_all add: addToIndex_t)

lemma decoded_Nil: "decoded [] = []"
  by (simp add: decoded_def List.map_filter_simps)

lemma decoded_Cons:
  "decoded ((ts, docId, d) # q) =
     (case DBPuzzleV_decode d of None \<Rightarrow> decoded q | Some z \<Rightarrow> (docId, z) # decoded q)"
  by (simp add: decoded_def List.map_filter_simps split: option.split)

lemma mapEachResult_decoded: "mapEachResult pol q = Inr found \<Longrightarrow> found = decoded q"
proof (induction q arbitrary: found)
  case Nil
  then show ?case by (simp add: decoded_Nil)
next
  case (Cons c q)
  obtain ts docId d where c: "c = (ts, docId, d)" by (cases c)
  show ?case
  proof (cases "DBPuzzleV_decode d")
    case None
    with Cons.prems c have "pol = SkipBad" "mapEachResult pol q = Inr found"
      by (auto split: bad_doc_policy.splits)
    with Cons.IH None c show ?thesis by (simp add: decoded_Cons)
  next
    case (Some z)
    with Cons.prems c obtain results where
      r: "mapEachResult pol q = Inr results" "found = (docId, z) # results"
      by (auto split: sum.splits)
    with Cons.IH Some c show ?thesis by (simp add: decoded_Cons)
  qed
qed

lemma mapEachResult_filter:
  "mapEachResult pol q = Inr found \<Longrightarrow> mapEachResult pol (filter P q) = Inr (decoded (filter P q))"
proof (induction q arbitrary: found)
  case Nil
  then show ?case by (simp add: decoded_Nil)
next
  case (Cons c q)
  obtain ts docId d where c: "c = (ts, docId, d)" by (cases c)
  show ?case
  proof (cases "DBPuzzleV_decode d")
    case None
    with Cons.prems c have "pol = SkipBad" "mapEachResult pol q = Inr found"
      by (auto split: bad_doc_policy.splits)
    with Cons.IH None c show ?thesis by (simp add: decoded_Cons)
  next
    case (Some z)
    with Cons.prems c obtain results where
      r: "mapEachResult pol q = Inr results"
      by (auto split: sum.splits)
    with Cons.IH Some c show ?thesis by (simp add: decoded_Cons)
  qed
qed

lemma in_set_map_filter: "y \<in> set (List.map_filter f xs) \<longleftrightarrow> (\<exists>x\<in>set xs. f x = Some y)"
  by (induction xs) (auto split: option.splits)

lemma decoded_mem:
  "(docId, z) \<in> set (decoded q) \<longleftrightarrow> (\<exists>ts d. (ts, docId, d) \<in> set q \<and> DBPuzzleV_decode d = Some z)"
  unfolding decoded_def in_set_map_filter by force

lemma decode_p: "DBPuzzleV_decode d = Some z \<Longrightarrow> raw_p d = Some (pz_p z)"
  by (auto simp: DBPuzzleV_decode_def split: option.splits)

lemma query_candidate_Some:
  "query_candidate qf qv e = Some c \<longleftrightarrow>
     snd c = e \<and> raw_p (snd e) = Some (fst c) \<and> field_eq qf qv (snd e)"
  by (cases c) (auto simp: query_candidate_def split: option.splits)

lemma run_query_mem:
  "(ts, docId, d) \<in> set (run_query qf qv bound docs) \<longleftrightarrow>
     (docId, d) \<in> set docs \<and> raw_p d = Some ts \<and> field_eq qf qv d \<and> (\<forall>b. bound = Some b \<longrightarrow> b < ts)"
proof -
  have "(ts, docId, d) \<in> set (List.map_filter (query_candidate qf qv) docs) \<longleftrightarrow>
      (docId, d) \<in> set docs \<and> raw_p d = Some ts \<and> field_eq qf qv d"
    unfolding in_set_map_filter query_candidate_Some by force
  then show ?thesis
    by (cases bound) (auto simp: run_query_def)
qed

lemma run_query_again:
  assumes "\<forall>b. bound = Some b \<longrightarrow> b \<le> b'"
  shows "run_query qf qv (Some b') docs = filter (\<lambda>c. b' < fst c) (run_query qf qv bound docs)"
proof (cases bound)
  case None
  then show ?thesis by (simp add: run_query_def)
next
  case (Some b)
  with assms have "b \<le> b'" by simp
  then have "(\<lambda>c::timestamp \<times> string \<times> 'a puzzle_data. b < fst c \<and> b' < fst c) = (\<lambda>c. b' < fst c)"
    by auto
  with Some show ?thesis by (simp add: run_query_def)
qed

lemma loadIndex_after_set:
  "loadIndex indexDocId (db\<lparr>coll_i := AList.update indexDocId (Shaped index) (coll_i db)\<rparr>) = Inr index"
  by (simp add: loadIndex_def update_conv')

lemma refreshIndex_again:
  assumes "refreshIndex pol indexDocId qf qv db = Inr (newPuzzles, index', db')"
  shows "refreshIndex pol indexDocId qf qv db' = Inr ([], index', db')"
proof (cases "newPuzzles = []")
  case True
  with assms have "db' = db"
    by (auto simp: refreshIndex_def Let_def split: sum.splits if_splits)
  with assms True show ?thesis by simp
next
  case False
  from assms obtain index found where
    li: "loadIndex indexDocId db = Inr index" and
    me: "mapEachResult pol (run_query qf qv (mostRecentTimestamp index) (coll_c db)) = Inr found" and
    np: "newPuzzles = filter (\<lambda>a. fst a \<notin> set (idx_i index)) found"
    by (auto simp: refreshIndex_def Let_def split: sum.splits if_splits)
  let ?q = "run_query qf qv (mostRecentTimestamp index) (coll_c db)"
  from assms False li me np have
    ix: "index' = updateIndex index newPuzzles" and
    db: "db' = db\<lparr>coll_i := AList.update indexDocId (Shaped index') (coll_i db)\<rparr>"
    by (auto simp: refreshIndex_def Let_def)
  have found: "found = decoded ?q" using me by (rule mapEachResult_decoded)
  from False obtain a rest where nc: "newPuzzles = a # rest" by (cases newPuzzles) auto
  define b' where "b' = pz_p (snd a)"
  have mrt: "mostRecentTimestamp index' = Some b'"
    by (simp add: mostRecentTimestamp_def ix updateIndex_i updateIndex_t nc b'_def)
  have "a \<in> set found" using np nc by (metis filter_is_subset list.set_intros(1) subsetD)
  then obtain ts d where a: "(ts, fst a, d) \<in> set ?q" "DBPuzzleV_decode d = Some (snd a)"
    using decoded_mem[of "fst a" "snd a" ?q] found by auto
  then have "raw_p d = Some ts" by (simp add: run_query_mem)
  with a(2) have "ts = b'" using decode_p[of d "snd a"] by (simp add: b'_def)
  with a(1) have bound: "\<forall>b. mostRecentTimestamp index = Some b \<longrightarrow> b \<le> b'"
    by (auto simp: run_query_mem)
  let ?q' = "filter (\<lambda>c. b' < fst c) ?q"
  have q': "run_query qf qv (Some b') (coll_c db) = ?q'"
    using bound by (rule run_query_again)
  have me': "mapEachResult pol ?q' = Inr (decoded ?q')"
    using me by (rule mapEachResult_filter)
  have none: "filter (\<lambda>a. fst a \<notin> set (idx_i index')) (decoded ?q') = []"
  proof -
    have "fst e \<in> set (idx_i index')" if "e \<in> set (decoded ?q')" for e
    proof -
      from that have "e \<in> set found"
        using decoded_mem[of "fst e" "snd e" ?q'] decoded_mem[of "fst e" "snd e" ?q] found by auto
      then show ?thesis
        by (cases "fst e \<in> set (idx_i index)") (auto simp: ix updateIndex_i np)
    qed
    then show ?thesis by (simp add: filter_empty_conv)
  qed
  have li': "loadIndex indexDocId db' = Inr index'"
    unfolding db by (rule loadIndex_after_set)
  have cc: "coll_c db' = coll_c db" by (simp add: db)
  show ?thesis
    by (simp add: refreshIndex_def li' mrt cc q' me' none Let_def)
qed

lemma refreshIndex_docs:
  "refreshIndex pol indexDocId qf qv db = Inr (newPuzzles, index', db') \<Longrightarrow> coll_c db' = coll_c db"
  by (auto simp: refreshIndex_def Let_def split: sum.splits if_splits)

lemma refreshIndex_new_in_store:
  assumes "refreshIndex pol indexDocId qf qv db = Inr (newPuzzles, index', db')"
    and "(docId, z) \<in> set newPuzzles"
  shows "\<exists>d. (docId, d) \<in> set (coll_c db) \<and> DBPuzzleV_decode d = Some z"
proof -
  from assms(1) obtain index found where
    me: "mapEachResult pol (run_query qf qv (mostRecentTimestamp index) (coll_c db)) = Inr found" and
    np: "newPuzzles = filter (\<lambda>a. fst a \<notin> set (idx_i index)) found"
    by (auto simp: refreshIndex_def Let_def split: sum.splits if_splits)
  from assms(2) np have "(docId, z) \<in> set found" by simp
  with mapEachResult_decoded[OF me] show ?thesis
    by (auto simp: decoded_mem run_query_mem)
qed

lemma assemblePage_without_new:
  assumes "\<And>a. a \<in> set newPuzzles \<Longrightarrow> \<exists>d. map_of docs (fst a) = Some d \<and> DBPuzzleV_decode d = Some (snd a)"
  shows "assemblePage puzzleFromDB newPuzzles docs ids = assemblePage puzzleFromDB [] docs ids"
proof (induction ids)
  case Nil
  show ?case by simp
next
  case (Cons puzzleId rest)
  show ?case
  proof (cases "find (\<lambda>x. fst x = puzzleId) newPuzzles")
    case None
    with Cons show ?thesis by (simp split: option.split)
  next
    case (Some alreadyHave)
    then have "alreadyHave \<in> set newPuzzles" "fst alreadyHave = puzzleId"
      by (auto simp: find_Some_iff)
    with assms[of alreadyHave] Some Cons show ?thesis by auto
  qed
qed

lemma getPuzzlesForPage_again:
  assumes "distinct (map fst (coll_c db))"
    and "getPuzzlesForPage pol puzzleFromDB now indexDocId qf qv page page_size db = (out, db')"
  shows "getPuzzlesForPage pol puzzleFromDB now indexDocId qf qv page page_size db' = (out, db')"
proof (cases "refreshIndex pol indexDocId qf qv db")
  case (Inl e)
  with assms(2) have "db' = db" by (simp add: getPuzzlesForPage_def)
  with assms(2) show ?thesis by simp
next
  case (Inr r)
  then obtain newPuzzles index d where r: "refreshIndex pol indexDocId qf qv db = Inr (newPuzzles, index, d)"
    by (cases r) auto
  with assms(2) have d: "d = db'"
    by (auto simp: getPuzzlesForPage_def Let_def split: sum.splits)
  note again = refreshIndex_again[OF r[unfolded d]]
  have cc: "coll_c db' = coll_c db" using r[unfolded d] by (rule refreshIndex_docs)
  have asm: "assemblePage puzzleFromDB (rev newPuzzles) (coll_c db') ids
      = assemblePage puzzleFromDB [] (coll_c db') ids" for ids
  proof (rule assemblePage_without_new)
    fix a assume "a \<in> set (rev newPuzzles)"
    then have "(fst a, snd a) \<in> set newPuzzles" by simp
    from refreshIndex_new_in_store[OF r[unfolded d] this]
    obtain dd where "(fst a, dd) \<in> set (coll_c db)" "DBPuzzleV_decode dd = Some (snd a)" by auto
    with assms(1) cc show "\<exists>d. map_of (coll_c db') (fst a) = Some d \<and> DBPuzzleV_decode d = Some (snd a)"
      by auto
  qed
  from assms(2) r d show ?thesis
    by (auto simp: getPuzzlesForPage_def again asm Let_def split: sum.splits)
qed

lemma map_filter_append:
  "List.map_filter f (xs @ ys) = List.map_filter f xs @ List.map_filter f ys"
  by (induction xs) (simp_all split: option.split)

lemma filterLoop_step:
  "filterLoop now index L ((i, pid) # rest) =
     (if missingGoLive index pid then Inl (MissingFromPvut pid)
      else filterLoop now index (applyAction (entryAction now index pid) i L) rest)"
  by (auto simp: missingGoLive_def isPrivate_def isPrivateUntil_def goLiveOf_def entryAction_def
      split: option.splits)

lemma applyAction_past_end: "length L \<le> i \<Longrightarrow> applyAction a i L = L"
  by (cases a) (simp_all add: splice1_def setTime_def)

lemma applyAction_at:
  "applyAction a (length as) (as @ (pid, t) # bs) =
     as @ (case a of Drop \<Rightarrow> [] | Retime g \<Rightarrow> [(pid, g)] | Keep \<Rightarrow> [(pid, t)]) @ bs"
  by (cases a) (simp_all add: splice1_def setTime_def)

lemma spec_workingEntry_action:
  "spec_workingEntry now index (pid, t) =
     (case entryAction now index pid of Drop \<Rightarrow> None | Retime g \<Rightarrow> Some (pid, g) | Keep \<Rightarrow> Some (pid, t))"
  by (simp add: spec_workingEntry_def entryAction_def split: option.splits)

lemma filterLoop_closed:
  assumes "rest = [] \<or> length xs \<le> length ts"
  shows "filterLoop now index (zip xs ts @ rest) (rev (enumerate 0 xs)) =
     (if \<exists>pid\<in>set xs. missingGoLive index pid
      then Inl (MissingFromPvut (last (filter (missingGoLive index) xs)))
      else Inr (List.map_filter (spec_workingEntry now index) (zip xs ts) @ rest))"
  using assms
proof (induction xs arbitrary: ts rest rule: rev_induct)
  case Nil
  then show ?case by simp
next
  case (snoc y ys)
  have en: "rev (enumerate 0 (ys @ [y])) = (length ys, y) # rev (enumerate 0 ys)"
    by (simp add: enumerate_append_eq)
  show ?case
  proof (cases "missingGoLive index y")
    case True
    then show ?thesis by (simp add: en filterLoop_step del: filterLoop.simps)
  next
    case notmissing: False
    show ?thesis
    proof (cases "length ts \<le> length ys")
      case True
      with snoc.prems have rest: "rest = []" by auto
      from True have z: "zip (ys @ [y]) ts = zip ys ts" by (simp add: zip_append1)
      have "applyAction (entryAction now index y) (length ys) (zip ys ts) = zip ys ts"
        using True by (intro applyAction_past_end) simp
      with snoc.IH[of "[]" ts] notmissing show ?thesis
        by (simp add: en filterLoop_step z rest del: filterLoop.simps)
    next
      case False
      then obtain ts1 t ts2 where ts: "ts = ts1 @ t # ts2" "length ts1 = length ys"
        by (metis id_take_nth_drop length_take min.absorb4 not_le)
      have z: "zip (ys @ [y]) ts = zip ys ts1 @ [(y, t)]" by (simp add: ts zip_append1)
      define mid where "mid = (case entryAction now index y of Drop \<Rightarrow> [] | Retime g \<Rightarrow> [(y, g)] | Keep \<Rightarrow> [(y, t)])"
      have ap: "applyAction (entryAction now index y) (length ys) (zip ys ts1 @ (y, t) # rest)
          = zip ys ts1 @ (mid @ rest)"
        using applyAction_at[of "entryAction now index y" "zip ys ts1" y t rest] ts(2)
        by (simp add: mid_def)
      have mf: "List.map_filter (spec_workingEntry now index) [(y, t)] = mid"
        by (simp add: spec_workingEntry_action mid_def split: action.splits)
      from snoc.IH[of "mid @ rest" ts1] ts(2) notmissing show ?thesis
        by (simp add: en filterLoop_step z ap map_filter_append mf del: filterLoop.simps List.map_filter_simps)
    qed
  qed
qed

lemma filterPrivate_closed:
  "filterPrivate now index =
     (if \<exists>pid\<in>set (idx_i index). missingGoLive index pid
      then Inl (MissingFromPvut (last (filter (missingGoLive index) (idx_i index))))
      else Inr (spec_workingList now index))"
  using filterLoop_closed[of "[]" "idx_i index" "idx_t index" now index]
  by (simp add: filterPrivate_def spec_workingList_def)


lemma run_query_sorted: "sorted_wrt (\<lambda>a b. fst b \<le> fst a) (run_query qf qv bound docs)"
proof -
  have "sorted_wrt (\<lambda>a b. - fst a \<le> - fst b)
      (sort_key (\<lambda>c. - fst c) (List.map_filter (query_candidate qf qv) docs))"
    using sorted_sort_key[of "\<lambda>c. - fst c" "List.map_filter (query_candidate qf qv) docs"]
    by (simp only: sorted_map)
  then have s: "sorted_wrt (\<lambda>a b. fst b \<le> fst a)
      (sort_key (\<lambda>c. - fst c) (List.map_filter (query_candidate qf qv) docs))"
    by simp
  show ?thesis
    by (cases bound) (simp_all add: run_query_def s sorted_wrt_filter)
qed

lemma decoded_sorted:
  assumes "sorted_wrt (\<lambda>a b. fst b \<le> fst a) q"
    and "\<forall>c\<in>set q. raw_p (snd (snd c)) = Some (fst c)"
  shows "sorted_wrt (\<lambda>a b. pz_p (snd b) \<le> pz_p (snd a)) (decoded q)"
  using assms
proof (induction q)
  case Nil
  then show ?case by (simp add: decoded_Nil)
next
  case (Cons c q)
  obtain ts docId d where c: "c = (ts, docId, d)" by (cases c)
  show ?case
  proof (cases "DBPuzzleV_decode d")
    case None
    with Cons c show ?thesis by (simp add: decoded_Cons)
  next
    case (Some z)
    have "pz_p (snd e) \<le> pz_p z" if "e \<in> set (decoded q)" for e
    proof -
      from that obtain ts' d' where e: "(ts', fst e, d') \<in> set q" "DBPuzzleV_decode d' = Some (snd e)"
        using decoded_mem[of "fst e" "snd e" q] by auto
      with Cons.prems(2) have "raw_p d' = Some ts'" by force
      with e(2) have "pz_p (snd e) = ts'" using decode_p[of d' "snd e"] by simp
      moreover from Cons.prems(2) c Some have "pz_p z = ts" using decode_p[of d z] by simp
      moreover from Cons.prems(1) c e(1) have "ts' \<le> ts" by auto
      ultimately show ?thesis by simp
    qed
    with Cons c Some show ?thesis by (simp add: decoded_Cons)
  qed
qed

lemma refreshIndex_new_sorted:
  assumes "refreshIndex pol indexDocId qf qv db = Inr (newPuzzles, index', db')"
  shows "sorted_wrt (\<lambda>a b. pz_p (snd b) \<le> pz_p (snd a)) newPuzzles"
proof -
  from assms obtain index found where
    me: "mapEachResult pol (run_query qf qv (mostRecentTimestamp index) (coll_c db)) = Inr found" and
    np: "newPuzzles = filter (\<lambda>a. fst a \<notin> set (idx_i index)) found"
    by (auto simp: refreshIndex_def Let_def split: sum.splits if_splits)
  let ?q = "run_query qf qv (mostRecentTimestamp index) (coll_c db)"
  have "\<forall>c\<in>set ?q. raw_p (snd (snd c)) = Some (fst c)"
    using run_query_mem[of _ _ _ qf qv "mostRecentTimestamp index" "coll_c db"] by auto
  with run_query_sorted have "sorted_wrt (\<lambda>a b. pz_p (snd b) \<le> pz_p (snd a)) (decoded ?q)"
    by (rule decoded_sorted)
  with mapEachResult_decoded[OF me] np show ?thesis by (simp add: sorted_wrt_filter)
qed

lemma refreshIndex_updated:
  assumes "loadIndex indexDocId db = Inr index"
    and "refreshIndex pol indexDocId qf qv db = Inr (newPuzzles, index', db')"
    and "newPuzzles \<noteq> []"
  shows "index' = updateIndex index newPuzzles"
    and "db' = db\<lparr>coll_i := AList.update indexDocId (Shaped index') (coll_i db)\<rparr>"
  using assms by (auto simp: refreshIndex_def Let_def split: sum.splits if_splits)

lemma example_refresh:
  "refreshIndex pol ''u'' ''a'' (QString ''u'') exampleStore =
     Inr ([(''C'', \<lparr>pz_a = ''u'', pz_f = None, pz_p = 110, pz_pv = None, pz_pvu = None, pz_rest = ()\<rparr>)],
          \<lparr>idx_t = [110, 100, 90], idx_i = [''C'', ''A'', ''B''], idx_pv = None, idx_pvui = None,
            idx_pvut = None\<rparr>,
          exampleStore\<lparr>coll_i := [(''u'', Shaped \<lparr>idx_t = [110, 100, 90], idx_i = [''C'', ''A'', ''B''],
            idx_pv = None, idx_pvui = None, idx_pvut = None\<rparr>)]\<rparr>)"
  by (simp add: refreshIndex_def loadIndex_def exampleStore_def exampleIndex_def exampleDoc_def
      mostRecentTimestamp_def run_query_def query_candidate_def field_eq_def
      DBPuzzleV_decode_def updateIndex_def addToIndex_def Let_def)

lemma example_load: "loadIndex ''u'' exampleStore = Inr exampleIndex"
  by (simp add: loadIndex_def exampleStore_def)

text \<open>
  C5. The index update puts the newly discovered documents in front of the index, newest
  first: when the query discovers new puzzles, the ids of the updated index are the new
  ids, in the order of the query (publish time descending), followed by the old ids; the
  timestamps are prepended alike, and the updated index is the one persisted. For the
  index [ts=100,id=A],[ts=90,id=B] and the new document [ts=110,id=C] the persisted order
  of ids is [C,A,B].
\<close>

theorem index_update_prepends_newest_first:
  assumes "loadIndex indexDocId db = Inr index"
    and "refreshIndex pol indexDocId qf qv db = Inr (newPuzzles, index', db')"
    and "newPuzzles \<noteq> []"
  shows "idx_i index' = map fst newPuzzles @ idx_i index
    \<and> idx_t index' = map (\<lambda>a. pz_p (snd a)) newPuzzles @ idx_t index
    \<and> sorted_wrt (\<lambda>a b. pz_p (snd b) \<le> pz_p (snd a)) newPuzzles
    \<and> map_of (coll_i db') indexDocId = Some (Shaped index')
    \<and> (\<exists>index''. map_of (coll_i (snd (getPuzzlesForPage pol puzzleFromDB now ''u'' ''a'' (QString ''u'')
            page page_size exampleStore))) ''u'' = Some (Shaped index'')
          \<and> idx_i index'' = [''C'', ''A'', ''B''] \<and> idx_t index'' = [110, 100, 90])"
proof -
  note u = refreshIndex_updated[OF assms]
  have "map_of (coll_i db') indexDocId = Some (Shaped index')"
    by (subst u(2)) (simp add: update_conv')
  moreover have "\<exists>index''. map_of (coll_i (snd (getPuzzlesForPage pol puzzleFromDB now ''u'' ''a''
            (QString ''u'') page page_size exampleStore))) ''u'' = Some (Shaped index'')
          \<and> idx_i index'' = [''C'', ''A'', ''B''] \<and> idx_t index'' = [110, 100, 90]"
    by (simp add: getPuzzlesForPage_def example_refresh Let_def split: sum.split)
  ultimately show ?thesis
    using refreshIndex_new_sorted[OF assms(2)]
    by (simp add: u(1) updateIndex_i updateIndex_t)
qed

theorem index_update_prepends_newest_first_witness:
  "loadIndex ''u'' exampleStore = Inr exampleIndex
   \<and> (\<exists>newPuzzles index' db'.
        refreshIndex RejectAll ''u'' ''a'' (QString ''u'') exampleStore = Inr (newPuzzles, index', db')
        \<and> newPuzzles \<noteq> []
        \<and> idx_i index' = [''C'', ''A'', ''B'']
        \<and> idx_t index' = [110, 100, 90]
        \<and> map_of (coll_i db') ''u'' = Some (Shaped index'))"
proof -
  let ?C = "(''C'', \<lparr>pz_a = ''u'', pz_f = None, pz_p = 110, pz_pv = None, pz_pvu = None, pz_rest = ()\<rparr>)"
  have ne: "[?C] \<noteq> []" by simp
  from index_update_prepends_newest_first[OF example_load example_refresh ne, of RejectAll]
  show ?thesis
    by (simp add: example_load example_refresh exampleIndex_def)
qed

lemma spec_workingEntry_Some:
  "spec_workingEntry now index e = Some r \<longleftrightarrow>
     \<not> isPrivate index (fst e) \<and> fst r = fst e
     \<and> (case goLiveOf index (fst e) of None \<Rightarrow> snd r = snd e | Some goLive \<Rightarrow> goLive \<le> now \<and> snd r = goLive)"
  by (cases r; cases e) (auto simp: spec_workingEntry_def split: option.splits)

lemma spec_workingList_mem:
  "r \<in> set (spec_workingList now index) \<longleftrightarrow>
     (\<exists>e\<in>set (zip (idx_i index) (idx_t index)). \<not> isPrivate index (fst e) \<and> fst r = fst e
        \<and> (case goLiveOf index (fst e) of None \<Rightarrow> snd r = snd e | Some goLive \<Rightarrow> goLive \<le> now \<and> snd r = goLive))"
  unfolding spec_workingList_def in_set_map_filter spec_workingEntry_Some ..

lemma spec_workingList_not_private:
  "r \<in> set (spec_workingList now index) \<Longrightarrow> \<not> isPrivate index (fst r)"
  unfolding spec_workingList_mem by auto

lemma spec_workingList_live:
  "r \<in> set (spec_workingList now index) \<Longrightarrow> goLiveOf index (fst r) = Some goLive
     \<Longrightarrow> goLive \<le> now \<and> snd r = goLive"
  unfolding spec_workingList_mem by auto

lemma spec_workingList_retained:
  assumes "(pid, ts) \<in> set (zip (idx_i index) (idx_t index))" "\<not> isPrivate index pid"
    "goLiveOf index pid = Some goLive" "goLive \<le> now"
  shows "(pid, goLive) \<in> set (spec_workingList now index)"
  unfolding spec_workingList_mem using assms by (intro bexI[of _ "(pid, ts)"]) simp_all


lemma assemblePage_present:
  "assemblePage puzzleFromDB newPuzzles docs ids =
     List.map_filter (presentPuzzle puzzleFromDB newPuzzles docs) ids"
  by (induction ids) (auto simp: presentPuzzle_def readPuzzle_def split: option.splits)

lemma getPuzzlesForPage_served:
  assumes "refreshIndex pol indexDocId qf qv db = Inr (newPuzzles, index, db')"
    and "filterPrivate now index = Inr idsAndTimes"
  shows "getPuzzlesForPage pol puzzleFromDB now indexDocId qf qv page page_size db =
     (Inr (List.map_filter (presentPuzzle puzzleFromDB (rev newPuzzles) (coll_c db'))
             (entriesForPage page page_size (sortNewestFirst idsAndTimes)),
           length idsAndTimes), db')"
  using assms by (simp add: getPuzzlesForPage_def Let_def assemblePage_present sortNewestFirst_def)

lemma filterPrivate_Inr: "filterPrivate now index = Inr idsAndTimes \<Longrightarrow> idsAndTimes = spec_workingList now index"
  by (simp add: filterPrivate_closed split: if_splits)

text \<open>
  What the filter loop leaves out and what it keeps: no permanently private id, no
  private-until id whose go-live time is still to come, and every other private-until entry
  with its go-live time.
\<close>

lemma filterPrivate_excludes_private:
  assumes "filterPrivate now index = Inr idsAndTimes"
  shows "(\<forall>pid. arrIncludes (idx_pv index) pid \<longrightarrow> pid \<notin> fst ` set idsAndTimes)
    \<and> (\<forall>pid goLive. goLiveOf index pid = Some goLive \<and> now < goLive \<longrightarrow> pid \<notin> fst ` set idsAndTimes)
    \<and> (\<forall>pid ts goLive. (pid, ts) \<in> set (zip (idx_i index) (idx_t index))
          \<and> \<not> arrIncludes (idx_pv index) pid \<and> goLiveOf index pid = Some goLive \<and> goLive \<le> now
          \<longrightarrow> (pid, goLive) \<in> set idsAndTimes)"
proof (intro conjI allI impI)
  note w = filterPrivate_Inr[OF assms]
  fix pid assume "arrIncludes (idx_pv index) pid"
  then show "pid \<notin> fst ` set idsAndTimes"
    unfolding w using spec_workingList_not_private[of _ now index] by (auto simp: isPrivate_def)
next
  note w = filterPrivate_Inr[OF assms]
  fix pid goLive assume "goLiveOf index pid = Some goLive \<and> now < goLive"
  then show "pid \<notin> fst ` set idsAndTimes"
    unfolding w using spec_workingList_live[of _ now index goLive] by fastforce
next
  note w = filterPrivate_Inr[OF assms]
  fix pid ts goLive
  assume "(pid, ts) \<in> set (zip (idx_i index) (idx_t index))
          \<and> \<not> arrIncludes (idx_pv index) pid \<and> goLiveOf index pid = Some goLive \<and> goLive \<le> now"
  then show "(pid, goLive) \<in> set idsAndTimes"
    unfolding w by (intro spec_workingList_retained[of pid ts]) (simp_all add: isPrivate_def)
qed

lemma privacy_example: "filterPrivate 200 privacyIndex = Inr [(''F'', 50), (''C'', 110)]"
  by code_simp

lemma goLiveOf_in_pvut: "goLiveOf index pid = Some g \<Longrightarrow> g \<in> set (orEmpty (idx_pvut index))"
  by (auto simp: goLiveOf_def arrayAt_def split: if_splits)

lemma filterPrivate_clock:
  assumes "\<forall>g\<in>set (orEmpty (idx_pvut index)). (now < g) = (now' < g)"
  shows "filterPrivate now' index = filterPrivate now index"
proof -
  have "spec_workingEntry now' index = spec_workingEntry now index"
  proof (rule ext)
    fix e show "spec_workingEntry now' index e = spec_workingEntry now index e"
      using assms goLiveOf_in_pvut[of index "fst e"]
      by (auto simp: spec_workingEntry_def split: option.splits)
  qed
  then have "spec_workingList now' index = spec_workingList now index"
    by (simp add: spec_workingList_def)
  then show ?thesis by (simp add: filterPrivate_closed)
qed

lemma refreshIndex_nothing_new:
  "refreshIndex pol indexDocId qf qv db = Inr ([], index, db') \<Longrightarrow>
     db' = db \<and> loadIndex indexDocId db = Inr index"
  by (auto simp: refreshIndex_def Let_def split: sum.splits if_splits)

lemma getPuzzlesForPage_clock:
  assumes "\<forall>index. loadIndex indexDocId db = Inr index \<longrightarrow>
      (\<forall>g\<in>set (orEmpty (idx_pvut index)). (now < g) = (now' < g))"
    and "nothingNew pol indexDocId qf qv db"
  shows "getPuzzlesForPage pol puzzleFromDB now' indexDocId qf qv page page_size db
     = getPuzzlesForPage pol puzzleFromDB now indexDocId qf qv page page_size db"
proof (cases "refreshIndex pol indexDocId qf qv db")
  case (Inl e)
  then show ?thesis by (simp add: getPuzzlesForPage_def)
next
  case (Inr r)
  with assms(2) obtain index d where r: "refreshIndex pol indexDocId qf qv db = Inr ([], index, d)"
    by (cases r) (auto simp: nothingNew_def)
  from refreshIndex_nothing_new[OF r] assms(1)
  have "filterPrivate now' index = filterPrivate now index"
    by (intro filterPrivate_clock) blast
  with r show ?thesis by (simp add: getPuzzlesForPage_def)
qed

lemma getPuzzlesForPage_store_kept:
  assumes "nothingNew pol indexDocId qf qv db"
  shows "snd (getPuzzlesForPage pol puzzleFromDB now indexDocId qf qv page page_size db) = db"
proof (cases "refreshIndex pol indexDocId qf qv db")
  case (Inl e)
  then show ?thesis by (simp add: getPuzzlesForPage_def)
next
  case (Inr r)
  with assms obtain index d where r: "refreshIndex pol indexDocId qf qv db = Inr ([], index, d)"
    by (cases r) (auto simp: nothingNew_def)
  from refreshIndex_nothing_new[OF r] r show ?thesis
    by (simp add: getPuzzlesForPage_def Let_def split: sum.split)
qed

lemma nothingNew_after:
  assumes "getPuzzlesForPage pol puzzleFromDB now indexDocId qf qv page page_size db = (out, db')"
  shows "nothingNew pol indexDocId qf qv db'"
proof (cases "refreshIndex pol indexDocId qf qv db")
  case (Inl e)
  with assms have "db' = db" by (simp add: getPuzzlesForPage_def)
  with Inl show ?thesis by (simp add: nothingNew_def)
next
  case (Inr r)
  then obtain n0 i0 d0 where r: "refreshIndex pol indexDocId qf qv db = Inr (n0, i0, d0)"
    by (cases r) auto
  with assms have "d0 = db'"
    by (auto simp: getPuzzlesForPage_def Let_def split: sum.splits)
  with r refreshIndex_again[of pol indexDocId qf qv db n0 i0 db'] show ?thesis
    by (simp add: nothingNew_def)
qed

text \<open>
  C1 as stated fails: the clock is read by every run, and a private-until puzzle that goes
  live between two runs changes the page and the count although the store holds no new
  document. The index lists E as private until 500; the run at 200 returns C and F with
  the count 2 and leaves the store as it is, the run at 600 returns E, C and F with the
  count 3.
\<close>

theorem page_changes_when_a_puzzle_goes_live:
  "getPuzzlesForPage RejectAll pz_p 200 ''u'' ''a'' (QString ''u'') 0 10 goLiveStore
     = (Inr ([(''C'', 110), (''F'', 112)], 2), goLiveStore)
   \<and> getPuzzlesForPage RejectAll pz_p 600 ''u'' ''a'' (QString ''u'') 0 10 goLiveStore
     = (Inr ([(''E'', 115), (''C'', 110), (''F'', 112)], 3), goLiveStore)"
  by code_simp

text \<open>
  C1, amended. Page building is idempotent as long as no private-until puzzle goes live
  between the runs. In a store that holds one document per id, whatever a run of
  getPuzzlesForPage returns (the page with its total count, or the error) and whatever
  store it leaves: a second run with the same request on that store, at a clock reading
  that no go-live time of the persisted index separates from the first one, returns the
  same result; and at any clock reading the second run leaves the store, and so the
  persisted index, as it is. A run that discovers no new puzzle leaves the store it
  started from unchanged.
\<close>

theorem getPuzzlesForPage_idempotent:
  assumes "distinct (map fst (coll_c db))"
    and "getPuzzlesForPage pol puzzleFromDB now indexDocId qf qv page page_size db = (out, db')"
  shows "((\<forall>index. loadIndex indexDocId db' = Inr index \<longrightarrow>
             (\<forall>g\<in>set (orEmpty (idx_pvut index)). (now < g) = (now' < g)))
          \<longrightarrow> getPuzzlesForPage pol puzzleFromDB now' indexDocId qf qv page page_size db' = (out, db'))
    \<and> snd (getPuzzlesForPage pol puzzleFromDB now'' indexDocId qf qv page page_size db') = db'
    \<and> (nothingNew pol indexDocId qf qv db \<longrightarrow> db' = db)"
proof -
  note no_new = nothingNew_after[OF assms(2)]
  note again = getPuzzlesForPage_again[OF assms]
  have "getPuzzlesForPage pol puzzleFromDB now' indexDocId qf qv page page_size db' = (out, db')"
    if "\<forall>index. loadIndex indexDocId db' = Inr index \<longrightarrow>
             (\<forall>g\<in>set (orEmpty (idx_pvut index)). (now < g) = (now' < g))"
  proof -
    have "getPuzzlesForPage pol puzzleFromDB now' indexDocId qf qv page page_size db'
        = getPuzzlesForPage pol puzzleFromDB now indexDocId qf qv page page_size db'"
      using that no_new by (rule getPuzzlesForPage_clock)
    with again show ?thesis by simp
  qed
  moreover have "snd (getPuzzlesForPage pol puzzleFromDB now'' indexDocId qf qv page page_size db') = db'"
    using no_new by (rule getPuzzlesForPage_store_kept)
  moreover have "db' = db" if "nothingNew pol indexDocId qf qv db"
    using getPuzzlesForPage_store_kept[OF that, of puzzleFromDB now page page_size] assms(2) by simp
  ultimately show ?thesis by blast
qed

lemma example_page:
  "getPuzzlesForPage RejectAll pz_p 200 ''u'' ''a'' (QString ''u'') 0 10 exampleStore =
     (Inr ([(''C'', 110), (''A'', 100), (''B'', 90)], 3),
      exampleStore\<lparr>coll_i := [(''u'', Shaped \<lparr>idx_t = [110, 100, 90], idx_i = [''C'', ''A'', ''B''],
            idx_pv = None, idx_pvui = None, idx_pvut = None\<rparr>)]\<rparr>)"
  by code_simp

theorem getPuzzlesForPage_idempotent_witness:
  "distinct (map fst (coll_c exampleStore))
   \<and> getPuzzlesForPage RejectAll pz_p 200 ''u'' ''a'' (QString ''u'') 0 10 exampleStore =
       (Inr ([(''C'', 110), (''A'', 100), (''B'', 90)], 3),
        exampleStore\<lparr>coll_i := [(''u'', Shaped \<lparr>idx_t = [110, 100, 90], idx_i = [''C'', ''A'', ''B''],
            idx_pv = None, idx_pvui = None, idx_pvut = None\<rparr>)]\<rparr>)
   \<and> getPuzzlesForPage RejectAll pz_p 300 ''u'' ''a'' (QString ''u'') 0 10
        (exampleStore\<lparr>coll_i := [(''u'', Shaped \<lparr>idx_t = [110, 100, 90], idx_i = [''C'', ''A'', ''B''],
            idx_pv = None, idx_pvui = None, idx_pvut = None\<rparr>)]\<rparr>) =
       (Inr ([(''C'', 110), (''A'', 100), (''B'', 90)], 3),
        exampleStore\<lparr>coll_i := [(''u'', Shaped \<lparr>idx_t = [110, 100, 90], idx_i = [''C'', ''A'', ''B''],
            idx_pv = None, idx_pvui = None, idx_pvut = None\<rparr>)]\<rparr>)"
proof -
  let ?index' = "\<lparr>idx_t = [110, 100, 90], idx_i = [''C'', ''A'', ''B''],
            idx_pv = None, idx_pvui = None, idx_pvut = None\<rparr>"
  let ?db' = "exampleStore\<lparr>coll_i := [(''u'', Shaped ?index')]\<rparr>"
  have d: "distinct (map fst (coll_c exampleStore))" by code_simp
  have l: "loadIndex ''u'' ?db' = Inr ?index'" by (simp add: loadIndex_def)
  have clock: "\<forall>index. loadIndex ''u'' ?db' = Inr index \<longrightarrow>
             (\<forall>g\<in>set (orEmpty (idx_pvut index)). ((200::int) < g) = (300 < g))"
    unfolding l by (simp add: orEmpty_def)
  from getPuzzlesForPage_idempotent[OF d example_page, of 300] clock
  have "getPuzzlesForPage RejectAll pz_p 300 ''u'' ''a'' (QString ''u'') 0 10 ?db'
      = (Inr ([(''C'', 110), (''A'', 100), (''B'', 90)], 3), ?db')"
    by blast
  with d example_page show ?thesis by blast
qed

text \<open>
  C2 as stated fails: an index document that exists but fails the shape validation makes
  getPuzzlesForPage throw "failed to validate index", while the same store without the
  index document serves the page.
\<close>

theorem corrupt_index_is_not_treated_as_absent:
  "fst (getPuzzlesForPage RejectAll pz_p 200 ''u'' ''a'' (QString ''u'') 0 10 corruptStore)
     = Inl (FailedToValidateIndex ''u'')
   \<and> fst (getPuzzlesForPage RejectAll pz_p 200 ''u'' ''a'' (QString ''u'') 0 10
            (corruptStore\<lparr>coll_i := []\<rparr>))
     = Inr ([(''A'', 100)], 1)"
  by code_simp

text \<open>
  C2, amended. When the loaded index document exists but fails the shape validation,
  getPuzzlesForPage aborts with the error "failed to validate index for" the document id
  and leaves the store unchanged; only an absent index document is replaced by the empty
  index.
\<close>

theorem corrupt_index_aborts:
  "(map_of (coll_i db) indexDocId = Some Unshaped \<longrightarrow>
      getPuzzlesForPage pol puzzleFromDB now indexDocId qf qv page page_size db
        = (Inl (FailedToValidateIndex indexDocId), db))
   \<and> (map_of (coll_i db) indexDocId = None \<longrightarrow> loadIndex indexDocId db = Inr emptyIndex)"
  by (simp add: getPuzzlesForPage_def refreshIndex_def loadIndex_def)

theorem corrupt_index_aborts_witness:
  "map_of (coll_i corruptStore) ''u'' = Some Unshaped
   \<and> getPuzzlesForPage RejectAll pz_p 200 ''u'' ''a'' (QString ''u'') 0 10 corruptStore
        = (Inl (FailedToValidateIndex ''u''), corruptStore)
   \<and> map_of (coll_i (corruptStore\<lparr>coll_i := []\<rparr>)) ''u'' = None
   \<and> loadIndex ''u'' (corruptStore\<lparr>coll_i := []\<rparr>) = Inr emptyIndex"
proof -
  have a: "map_of (coll_i corruptStore) ''u'' = Some Unshaped" by (simp add: corruptStore_def)
  have b: "map_of (coll_i (corruptStore\<lparr>coll_i := []\<rparr>)) ''u'' = None" by simp
  from corrupt_index_aborts[of corruptStore "''u''" RejectAll pz_p 200 "''a''" "QString ''u''" 0 10] a
  have 1: "getPuzzlesForPage RejectAll pz_p 200 ''u'' ''a'' (QString ''u'') 0 10 corruptStore
        = (Inl (FailedToValidateIndex ''u''), corruptStore)" by blast
  from corrupt_index_aborts[of "corruptStore\<lparr>coll_i := []\<rparr>" "''u''"] b
  have 2: "loadIndex ''u'' (corruptStore\<lparr>coll_i := []\<rparr>) = Inr emptyIndex" by blast
  from a b 1 2 show ?thesis by blast
qed

lemma sortNewestFirst_sorted: "sorted_wrt (\<lambda>a b. snd b \<le> snd a) (sortNewestFirst idsAndTimes)"
proof -
  have "sorted_wrt (\<lambda>a b. - snd a \<le> - snd b) (sort_key (\<lambda>a. - snd a) idsAndTimes)"
    using sorted_sort_key[of "\<lambda>a. - snd a" idsAndTimes] by (simp only: sorted_map)
  then show ?thesis by (simp add: sortNewestFirst_def)
qed

lemma sortNewestFirst_mset: "mset (sortNewestFirst idsAndTimes) = mset idsAndTimes"
  by (simp add: sortNewestFirst_def)

lemma readPuzzle_fst: "readPuzzle newPuzzles docs pid = Some a \<Longrightarrow> fst a = pid"
  by (auto simp: readPuzzle_def find_Some_iff split: option.splits)

text \<open>
  C4 as stated fails: the index lists A and B, the document A no longer exists; the ids
  selected for the page are the slice [A, B], the returned puzzles are those of B alone,
  and the count is 2.
\<close>

theorem returned_ids_are_not_the_slice:
  "fst (getPuzzlesForPage RejectAll pz_p 200 ''u'' ''a'' (QString ''u'') 0 10 ghostStore)
     = Inr ([(''B'', 90)], 2)
   \<and> filterPrivate 200 exampleIndex = Inr [(''A'', 100), (''B'', 90)]
   \<and> entriesForPage 0 10 (sortNewestFirst [(''A'', 100), (''B'', 90)]) = [''A'', ''B'']"
  by code_simp

text \<open>
  C4, amended. In a run of getPuzzlesForPage that gets past the index refresh and the
  filter, the working list is the one of the spec: each retained private-until entry
  carries its go-live time instead of its publish time, every other entry its publish time;
  the pairs are sorted descending by that effective timestamp (a permutation of the working
  list); the ids selected for the page are the slice [page*pageSize, page*pageSize+pageSize)
  of the sorted list; the returned puzzles are those of the selected ids whose document can
  be read (a new puzzle of this run, or a stored document that exists and decodes), in
  slice order; and the returned total count is the number of pairs after filtering.
\<close>

theorem page_is_readable_slice_of_sorted_working_list:
  assumes "refreshIndex pol indexDocId qf qv db = Inr (newPuzzles, index, db')"
    and "filterPrivate now index = Inr idsAndTimes"
  shows "idsAndTimes = spec_workingList now index
    \<and> (\<forall>e\<in>set idsAndTimes. case goLiveOf index (fst e) of
           Some goLive \<Rightarrow> snd e = goLive
         | None \<Rightarrow> e \<in> set (zip (idx_i index) (idx_t index)))
    \<and> sorted_wrt (\<lambda>a b. snd b \<le> snd a) (sortNewestFirst idsAndTimes)
    \<and> mset (sortNewestFirst idsAndTimes) = mset idsAndTimes
    \<and> entriesForPage page page_size (sortNewestFirst idsAndTimes)
        = map fst (take page_size (drop (page * page_size) (sortNewestFirst idsAndTimes)))
    \<and> getPuzzlesForPage pol puzzleFromDB now indexDocId qf qv page page_size db
        = (Inr (List.map_filter (presentPuzzle puzzleFromDB (rev newPuzzles) (coll_c db'))
                  (entriesForPage page page_size (sortNewestFirst idsAndTimes)),
                length idsAndTimes), db')"
proof -
  note w = filterPrivate_Inr[OF assms(2)]
  have "case goLiveOf index (fst e) of Some goLive \<Rightarrow> snd e = goLive
         | None \<Rightarrow> e \<in> set (zip (idx_i index) (idx_t index))" if "e \<in> set idsAndTimes" for e
    using that unfolding w spec_workingList_mem
    by (cases e) (auto split: option.splits)
  then show ?thesis
    using w sortNewestFirst_sorted[of idsAndTimes] getPuzzlesForPage_served[OF assms]
    by (simp add: sortNewestFirst_mset entriesForPage_def Let_def)
qed

lemma privacy_refresh:
  "refreshIndex RejectAll ''u'' ''a'' (QString ''u'') privacyStore = Inr ([], privacyIndex, privacyStore)"
  by code_simp

lemma privacy_page:
  "List.map_filter (presentPuzzle pz_p [] (coll_c privacyStore))
     (entriesForPage 1 1 (sortNewestFirst [(''F'', 50), (''C'', 110)])) = [(''F'', 112)]"
  by code_simp

lemma privacy_sorted: "sortNewestFirst [(''F'', 50), (''C'', 110)] = [(''C'', 110), (''F'', 50)]"
  by code_simp

theorem page_is_readable_slice_of_sorted_working_list_witness:
  "refreshIndex RejectAll ''u'' ''a'' (QString ''u'') privacyStore = Inr ([], privacyIndex, privacyStore)
   \<and> filterPrivate 200 privacyIndex = Inr [(''F'', 50), (''C'', 110)]
   \<and> sortNewestFirst [(''F'', 50), (''C'', 110)] = [(''C'', 110), (''F'', 50)]
   \<and> getPuzzlesForPage RejectAll pz_p 200 ''u'' ''a'' (QString ''u'') 1 1 privacyStore
       = (Inr ([(''F'', 112)], 2), privacyStore)"
proof -
  from page_is_readable_slice_of_sorted_working_list[where puzzleFromDB=pz_p and page=1 and page_size=1,
      OF privacy_refresh privacy_example]
  have "getPuzzlesForPage RejectAll pz_p 200 ''u'' ''a'' (QString ''u'') 1 1 privacyStore
       = (Inr (List.map_filter (presentPuzzle pz_p (rev []) (coll_c privacyStore))
                 (entriesForPage 1 1 (sortNewestFirst [(''F'', 50), (''C'', 110)])),
               length [(''F'', 50::int), (''C'', 110)]), privacyStore)"
    by blast
  then have "getPuzzlesForPage RejectAll pz_p 200 ''u'' ''a'' (QString ''u'') 1 1 privacyStore
       = (Inr ([(''F'', 112)], 2), privacyStore)"
    unfolding rev.simps privacy_page by simp
  with privacy_refresh privacy_example privacy_sorted show ?thesis by blast
qed

text \<open>
  C6. Page assembly never raises: a run of getPuzzlesForPage that gets past the index
  refresh and the filter returns a page. An id whose document is missing from the store or
  fails to decode (and that is not a new puzzle of this run) contributes nothing to the
  page, and every selected id whose document is readable is on the returned page.
\<close>

theorem unreadable_documents_are_skipped:
  assumes "refreshIndex pol indexDocId qf qv db = Inr (newPuzzles, index, db')"
    and "filterPrivate now index = Inr idsAndTimes"
  shows "\<exists>puzzles.
      getPuzzlesForPage pol puzzleFromDB now indexDocId qf qv page page_size db
        = (Inr (puzzles, length idsAndTimes), db')
    \<and> (\<forall>pid. pid \<notin> fst ` set newPuzzles
          \<and> (map_of (coll_c db') pid = None
              \<or> (\<exists>d. map_of (coll_c db') pid = Some d \<and> DBPuzzleV_decode d = None))
          \<longrightarrow> pid \<notin> fst ` set puzzles)
    \<and> (\<forall>pid d z. pid \<in> set (entriesForPage page page_size (sortNewestFirst idsAndTimes))
          \<and> pid \<notin> fst ` set newPuzzles
          \<and> map_of (coll_c db') pid = Some d \<and> DBPuzzleV_decode d = Some z
          \<longrightarrow> (pid, puzzleFromDB z) \<in> set puzzles)
    \<and> (\<forall>pid a. pid \<in> set (entriesForPage page page_size (sortNewestFirst idsAndTimes))
          \<and> find (\<lambda>x. fst x = pid) (rev newPuzzles) = Some a
          \<longrightarrow> (pid, puzzleFromDB (snd a)) \<in> set puzzles)"
proof -
  let ?ids = "entriesForPage page page_size (sortNewestFirst idsAndTimes)"
  let ?puzzles = "List.map_filter (presentPuzzle puzzleFromDB (rev newPuzzles) (coll_c db')) ?ids"
  have notnew: "find (\<lambda>x. fst x = pid) (rev newPuzzles) = None" if "pid \<notin> fst ` set newPuzzles" for pid
    using that by (force simp: find_None_iff)
  have skipped: "pid \<notin> fst ` set ?puzzles"
    if "pid \<notin> fst ` set newPuzzles"
      "map_of (coll_c db') pid = None
         \<or> (\<exists>d. map_of (coll_c db') pid = Some d \<and> DBPuzzleV_decode d = None)" for pid
  proof
    assume "pid \<in> fst ` set ?puzzles"
    then obtain r where r: "r \<in> set ?puzzles" "fst r = pid" by auto
    then obtain pid' a where a: "readPuzzle (rev newPuzzles) (coll_c db') pid' = Some a"
      "r = (fst a, puzzleFromDB (snd a))"
      unfolding in_set_map_filter presentPuzzle_def by auto
    with r(2) readPuzzle_fst[OF a(1)]
    have "readPuzzle (rev newPuzzles) (coll_c db') pid = Some a" by simp
    with that(2) notnew[OF that(1)] show False by (auto simp: readPuzzle_def)
  qed
  have stored: "(pid, puzzleFromDB z) \<in> set ?puzzles"
    if "pid \<in> set ?ids" "pid \<notin> fst ` set newPuzzles"
      "map_of (coll_c db') pid = Some d" "DBPuzzleV_decode d = Some z" for pid d z
    unfolding in_set_map_filter using that(1,3,4) notnew[OF that(2)]
    by (intro bexI[of _ pid]) (simp_all add: presentPuzzle_def readPuzzle_def)
  have new: "(pid, puzzleFromDB (snd a)) \<in> set ?puzzles"
    if "pid \<in> set ?ids" "find (\<lambda>x. fst x = pid) (rev newPuzzles) = Some a" for pid a
  proof -
    from that(2) have "fst a = pid" by (auto simp: find_Some_iff)
    with that show ?thesis
      unfolding in_set_map_filter
      by (intro bexI[of _ pid]) (simp_all add: presentPuzzle_def readPuzzle_def)
  qed
  from getPuzzlesForPage_served[OF assms] skipped stored new show ?thesis
    by (intro exI[of _ ?puzzles]) blast
qed

lemma broken_refresh:
  "refreshIndex RejectAll ''u'' ''a'' (QString ''u'') brokenStore =
     Inr ([], \<lparr>idx_t = [110, 100, 90], idx_i = [''C'', ''A'', ''B''], idx_pv = None,
               idx_pvui = None, idx_pvut = None\<rparr>, brokenStore)"
  by code_simp

lemma broken_filter:
  "filterPrivate 200 \<lparr>idx_t = [110, 100, 90], idx_i = [''C'', ''A'', ''B''], idx_pv = None,
               idx_pvui = None, idx_pvut = None\<rparr> = Inr [(''C'', 110), (''A'', 100), (''B'', 90)]"
  by code_simp

lemma broken_facts:
  "map_of (coll_c brokenStore) ''A'' = None"
  "map_of (coll_c brokenStore) ''B'' = Some ((exampleDoc ''u'' 90)\<lparr>raw_rest := None\<rparr>)"
  "DBPuzzleV_decode ((exampleDoc ''u'' 90)\<lparr>raw_rest := None\<rparr>) = None"
  "map_of (coll_c brokenStore) ''C'' = Some (exampleDoc ''u'' 110)"
  "DBPuzzleV_decode (exampleDoc ''u'' 110)
     = Some \<lparr>pz_a = ''u'', pz_f = None, pz_p = 110, pz_pv = None, pz_pvu = None, pz_rest = ()\<rparr>"
  "''C'' \<in> set (entriesForPage 0 10 (sortNewestFirst [(''C'', 110), (''A'', 100), (''B'', 90)]))"
  by code_simp+

theorem unreadable_documents_are_skipped_witness:
  "refreshIndex RejectAll ''u'' ''a'' (QString ''u'') brokenStore =
     Inr ([], \<lparr>idx_t = [110, 100, 90], idx_i = [''C'', ''A'', ''B''], idx_pv = None,
               idx_pvui = None, idx_pvut = None\<rparr>, brokenStore)
   \<and> filterPrivate 200 \<lparr>idx_t = [110, 100, 90], idx_i = [''C'', ''A'', ''B''], idx_pv = None,
               idx_pvui = None, idx_pvut = None\<rparr> = Inr [(''C'', 110), (''A'', 100), (''B'', 90)]
   \<and> map_of (coll_c brokenStore) ''A'' = None
   \<and> map_of (coll_c brokenStore) ''B'' = Some ((exampleDoc ''u'' 90)\<lparr>raw_rest := None\<rparr>)
   \<and> DBPuzzleV_decode ((exampleDoc ''u'' 90)\<lparr>raw_rest := None\<rparr>) = None
   \<and> (\<exists>puzzles. getPuzzlesForPage RejectAll pz_p 200 ''u'' ''a'' (QString ''u'') 0 10 brokenStore
          = (Inr (puzzles, 3), brokenStore)
        \<and> ''A'' \<notin> fst ` set puzzles \<and> ''B'' \<notin> fst ` set puzzles \<and> (''C'', 110) \<in> set puzzles)"
proof -
  have f: "pid \<notin> fst ` set ([] :: (string \<times> unit DBPuzzleT) list)" for pid by simp
  from unreadable_documents_are_skipped[where puzzleFromDB=pz_p and page=0 and page_size=10,
      OF broken_refresh broken_filter]
  obtain puzzles where p1:
    "getPuzzlesForPage RejectAll pz_p 200 ''u'' ''a'' (QString ''u'') 0 10 brokenStore
          = (Inr (puzzles, length [(''C'', 110::int), (''A'', 100), (''B'', 90)]), brokenStore)"
    and p2: "\<forall>pid. pid \<notin> fst ` set ([] :: (string \<times> unit DBPuzzleT) list)
          \<and> (map_of (coll_c brokenStore) pid = None
              \<or> (\<exists>d. map_of (coll_c brokenStore) pid = Some d \<and> DBPuzzleV_decode d = None))
          \<longrightarrow> pid \<notin> fst ` set puzzles"
    and p3: "\<forall>pid d z. pid \<in> set (entriesForPage 0 10 (sortNewestFirst [(''C'', 110), (''A'', 100), (''B'', 90)]))
          \<and> pid \<notin> fst ` set ([] :: (string \<times> unit DBPuzzleT) list)
          \<and> map_of (coll_c brokenStore) pid = Some d \<and> DBPuzzleV_decode d = Some z
          \<longrightarrow> (pid, pz_p z) \<in> set puzzles"
    by blast
  have p: "getPuzzlesForPage RejectAll pz_p 200 ''u'' ''a'' (QString ''u'') 0 10 brokenStore
          = (Inr (puzzles, 3), brokenStore)"
    using p1 by simp
  have "''A'' \<notin> fst ` set puzzles" using p2 f broken_facts(1) by blast
  moreover have "''B'' \<notin> fst ` set puzzles" using p2 f broken_facts(2,3) by blast
  moreover have "(''C'', pz_p \<lparr>pz_a = ''u'', pz_f = None, pz_p = 110, pz_pv = None, pz_pvu = None,
      pz_rest = ()\<rparr>) \<in> set puzzles"
    using p3 f broken_facts(4,5,6) by blast
  then have "(''C'', 110) \<in> set puzzles" by simp
  ultimately show ?thesis using p broken_refresh broken_filter broken_facts(1,2,3) by blast
qed

lemma entriesForPage_subset:
  "set (entriesForPage page page_size (sortNewestFirst idsAndTimes)) \<subseteq> fst ` set idsAndTimes"
proof -
  have "set (take page_size (drop (page * page_size) (sortNewestFirst idsAndTimes)))
      \<subseteq> set (sortNewestFirst idsAndTimes)"
    using set_take_subset set_drop_subset by fast
  also have "\<dots> = set idsAndTimes" by (simp add: sortNewestFirst_def)
  finally show ?thesis by (auto simp: entriesForPage_def Let_def)
qed

lemma entriesForPage_whole:
  assumes "length idsAndTimes \<le> page_size"
  shows "set (entriesForPage 0 page_size (sortNewestFirst idsAndTimes)) = fst ` set idsAndTimes"
proof -
  have "length (sortNewestFirst idsAndTimes) \<le> page_size"
    using assms by (simp add: sortNewestFirst_def)
  then have "take page_size (sortNewestFirst idsAndTimes) = sortNewestFirst idsAndTimes"
    by simp
  then show ?thesis by (simp add: entriesForPage_def sortNewestFirst_def)
qed

lemma presented_ids:
  "fst ` set (List.map_filter (presentPuzzle puzzleFromDB newPuzzles docs) ids) \<subseteq> set ids"
proof
  fix pid assume "pid \<in> fst ` set (List.map_filter (presentPuzzle puzzleFromDB newPuzzles docs) ids)"
  then obtain r where r: "r \<in> set (List.map_filter (presentPuzzle puzzleFromDB newPuzzles docs) ids)"
    "fst r = pid" by auto
  then obtain pid' a where a: "pid' \<in> set ids" "readPuzzle newPuzzles docs pid' = Some a"
    "r = (fst a, puzzleFromDB (snd a))"
    unfolding in_set_map_filter presentPuzzle_def by auto
  with r(2) readPuzzle_fst[OF a(2)] show "pid \<in> set ids" by simp
qed

lemma getPuzzlesForPage_Inr:
  assumes "getPuzzlesForPage pol puzzleFromDB now indexDocId qf qv page page_size db
      = (Inr (puzzles, n), db')"
  shows "\<exists>newPuzzles index idsAndTimes.
      refreshIndex pol indexDocId qf qv db = Inr (newPuzzles, index, db')
      \<and> filterPrivate now index = Inr idsAndTimes
      \<and> n = length idsAndTimes
      \<and> puzzles = List.map_filter (presentPuzzle puzzleFromDB (rev newPuzzles) (coll_c db'))
            (entriesForPage page page_size (sortNewestFirst idsAndTimes))"
proof (cases "refreshIndex pol indexDocId qf qv db")
  case (Inl e)
  with assms show ?thesis by (simp add: getPuzzlesForPage_def)
next
  case (Inr r)
  then obtain newPuzzles index d where r: "refreshIndex pol indexDocId qf qv db = Inr (newPuzzles, index, d)"
    by (cases r) auto
  show ?thesis
  proof (cases "filterPrivate now index")
    case (Inl e)
    with assms r show ?thesis by (simp add: getPuzzlesForPage_def)
  next
    case (Inr idsAndTimes)
    from getPuzzlesForPage_served[OF r Inr, of puzzleFromDB page page_size] assms
    have "d = db'" "n = length idsAndTimes"
      "puzzles = List.map_filter (presentPuzzle puzzleFromDB (rev newPuzzles) (coll_c d))
            (entriesForPage page page_size (sortNewestFirst idsAndTimes))"
      by simp_all
    with r Inr show ?thesis by blast
  qed
qed

text \<open>
  C3. In every run of getPuzzlesForPage that returns a page, the working list is the
  result of the function's filter loop on the refreshed index, the returned count is its
  length and every returned puzzle id comes from it. No id of the permanently-private list
  \<^verbatim>\<open>pv\<close> is in the working list or on the page, whatever the timestamps; no private-until
  id whose go-live time is later than the current time is in the working list or on the
  page; and every entry of the index (an id paired with a publish time) that is not
  permanently private and whose go-live time has passed is retained in the working list
  with its go-live time, and is on the page when the page covers the whole list and its
  document is readable.
\<close>

theorem working_list_excludes_private:
  assumes "getPuzzlesForPage pol puzzleFromDB now indexDocId qf qv page page_size db
      = (Inr (puzzles, n), db')"
  shows "\<exists>newPuzzles index idsAndTimes.
      refreshIndex pol indexDocId qf qv db = Inr (newPuzzles, index, db')
    \<and> filterPrivate now index = Inr idsAndTimes
    \<and> n = length idsAndTimes
    \<and> fst ` set puzzles \<subseteq> fst ` set idsAndTimes
    \<and> (\<forall>pid. arrIncludes (idx_pv index) pid
          \<longrightarrow> pid \<notin> fst ` set idsAndTimes \<and> pid \<notin> fst ` set puzzles)
    \<and> (\<forall>pid goLive. goLiveOf index pid = Some goLive \<and> now < goLive
          \<longrightarrow> pid \<notin> fst ` set idsAndTimes \<and> pid \<notin> fst ` set puzzles)
    \<and> (\<forall>pid ts goLive. (pid, ts) \<in> set (zip (idx_i index) (idx_t index))
          \<and> \<not> arrIncludes (idx_pv index) pid \<and> goLiveOf index pid = Some goLive \<and> goLive \<le> now
          \<longrightarrow> (pid, goLive) \<in> set idsAndTimes
              \<and> (\<forall>d z. page = 0 \<and> length idsAndTimes \<le> page_size
                    \<and> pid \<notin> fst ` set newPuzzles
                    \<and> map_of (coll_c db') pid = Some d \<and> DBPuzzleV_decode d = Some z
                    \<longrightarrow> (pid, puzzleFromDB z) \<in> set puzzles))"
proof -
  from getPuzzlesForPage_Inr[OF assms] obtain newPuzzles index idsAndTimes where
    r: "refreshIndex pol indexDocId qf qv db = Inr (newPuzzles, index, db')" and
    f: "filterPrivate now index = Inr idsAndTimes" and
    t: "n = length idsAndTimes" and
    p: "puzzles = List.map_filter (presentPuzzle puzzleFromDB (rev newPuzzles) (coll_c db'))
            (entriesForPage page page_size (sortNewestFirst idsAndTimes))"
    by (elim exE conjE)
  note ex = filterPrivate_excludes_private[OF f]
  note ex1 = ex[THEN conjunct1, rule_format]
  note ex2 = ex[THEN conjunct2, THEN conjunct1, rule_format]
  note ex3 = ex[THEN conjunct2, THEN conjunct2, rule_format]
  have "fst ` set puzzles \<subseteq> set (entriesForPage page page_size (sortNewestFirst idsAndTimes))"
    unfolding p by (rule presented_ids)
  then have sub: "fst ` set puzzles \<subseteq> fst ` set idsAndTimes"
    by (rule subset_trans) (rule entriesForPage_subset)
  have a: "\<forall>pid. arrIncludes (idx_pv index) pid
          \<longrightarrow> pid \<notin> fst ` set idsAndTimes \<and> pid \<notin> fst ` set puzzles"
  proof (intro allI impI)
    fix pid assume "arrIncludes (idx_pv index) pid"
    then have "pid \<notin> fst ` set idsAndTimes" by (rule ex1)
    moreover from this sub have "pid \<notin> fst ` set puzzles" by (meson subsetD)
    ultimately show "pid \<notin> fst ` set idsAndTimes \<and> pid \<notin> fst ` set puzzles" ..
  qed
  have b: "\<forall>pid goLive. goLiveOf index pid = Some goLive \<and> now < goLive
          \<longrightarrow> pid \<notin> fst ` set idsAndTimes \<and> pid \<notin> fst ` set puzzles"
  proof (intro allI impI)
    fix pid goLive assume "goLiveOf index pid = Some goLive \<and> now < goLive"
    then have "pid \<notin> fst ` set idsAndTimes" by (rule ex2)
    moreover from this sub have "pid \<notin> fst ` set puzzles" by (meson subsetD)
    ultimately show "pid \<notin> fst ` set idsAndTimes \<and> pid \<notin> fst ` set puzzles" ..
  qed
  have c: "\<forall>pid ts goLive. (pid, ts) \<in> set (zip (idx_i index) (idx_t index))
          \<and> \<not> arrIncludes (idx_pv index) pid \<and> goLiveOf index pid = Some goLive \<and> goLive \<le> now
          \<longrightarrow> (pid, goLive) \<in> set idsAndTimes
              \<and> (\<forall>d z. page = 0 \<and> length idsAndTimes \<le> page_size
                    \<and> pid \<notin> fst ` set newPuzzles
                    \<and> map_of (coll_c db') pid = Some d \<and> DBPuzzleV_decode d = Some z
                    \<longrightarrow> (pid, puzzleFromDB z) \<in> set puzzles)"
  proof (intro allI impI)
    fix pid ts goLive
    assume h: "(pid, ts) \<in> set (zip (idx_i index) (idx_t index))
          \<and> \<not> arrIncludes (idx_pv index) pid \<and> goLiveOf index pid = Some goLive \<and> goLive \<le> now"
    then have kept: "(pid, goLive) \<in> set idsAndTimes" by (rule ex3)
    have served: "\<forall>d z. page = 0 \<and> length idsAndTimes \<le> page_size
            \<and> pid \<notin> fst ` set newPuzzles
            \<and> map_of (coll_c db') pid = Some d \<and> DBPuzzleV_decode d = Some z
            \<longrightarrow> (pid, puzzleFromDB z) \<in> set puzzles"
    proof (intro allI impI, elim conjE)
      fix d z
      assume p0: "page = 0" and le: "length idsAndTimes \<le> page_size"
        and nn: "pid \<notin> fst ` set newPuzzles"
        and md: "map_of (coll_c db') pid = Some d" and dz: "DBPuzzleV_decode d = Some z"
      have whole: "set (entriesForPage page page_size (sortNewestFirst idsAndTimes))
          = fst ` set idsAndTimes"
        unfolding p0 using le by (rule entriesForPage_whole)
      have "fst (pid, goLive) \<in> fst ` set idsAndTimes" using kept by (rule imageI)
      then have sel: "pid \<in> set (entriesForPage page page_size (sortNewestFirst idsAndTimes))"
        unfolding whole by simp
      have "\<And>x. x \<in> set newPuzzles \<Longrightarrow> fst x \<noteq> pid"
        using nn by (meson imageI)
      then have "find (\<lambda>x. fst x = pid) (rev newPuzzles) = None"
        by (force simp: find_None_iff)
      then have "presentPuzzle puzzleFromDB (rev newPuzzles) (coll_c db') pid
          = Some (pid, puzzleFromDB z)"
        using md dz by (simp add: presentPuzzle_def readPuzzle_def)
      with sel show "(pid, puzzleFromDB z) \<in> set puzzles"
        unfolding p in_set_map_filter by (rule bexI[rotated])
    qed
    from kept served show "(pid, goLive) \<in> set idsAndTimes
      \<and> (\<forall>d z. page = 0 \<and> length idsAndTimes \<le> page_size
            \<and> pid \<notin> fst ` set newPuzzles
            \<and> map_of (coll_c db') pid = Some d \<and> DBPuzzleV_decode d = Some z
            \<longrightarrow> (pid, puzzleFromDB z) \<in> set puzzles)" ..
  qed
  show ?thesis
    apply (rule exI[of _ newPuzzles], rule exI[of _ index], rule exI[of _ idsAndTimes])
    apply (intro conjI)
          apply (rule r)
         apply (rule f)
        apply (rule t)
       apply (rule sub)
      apply (rule a)
     apply (rule b)
    apply (rule c)
    done
qed

lemma goLive_refresh:
  "refreshIndex RejectAll ''u'' ''a'' (QString ''u'') goLiveStore = Inr ([], privacyIndex, goLiveStore)"
  by code_simp

lemma goLive_page:
  "getPuzzlesForPage RejectAll pz_p 200 ''u'' ''a'' (QString ''u'') 0 10 goLiveStore
     = (Inr ([(''C'', 110), (''F'', 112)], 2), goLiveStore)"
  by code_simp

lemma goLive_facts:
  "arrIncludes (idx_pv privacyIndex) ''D''"
  "goLiveOf privacyIndex ''E'' = Some 500"
  "goLiveOf privacyIndex ''F'' = Some 50"
  "\<not> arrIncludes (idx_pv privacyIndex) ''F''"
  "map_of (coll_c goLiveStore) ''F'' = Some (exampleDoc ''u'' 112)"
  "DBPuzzleV_decode (exampleDoc ''u'' 112)
     = Some \<lparr>pz_a = ''u'', pz_f = None, pz_p = 112, pz_pv = None, pz_pvu = None, pz_rest = ()\<rparr>"
  by code_simp+

theorem working_list_excludes_private_witness:
  "getPuzzlesForPage RejectAll pz_p 200 ''u'' ''a'' (QString ''u'') 0 10 goLiveStore
     = (Inr ([(''C'', 110), (''F'', 112)], 2), goLiveStore)
   \<and> refreshIndex RejectAll ''u'' ''a'' (QString ''u'') goLiveStore = Inr ([], privacyIndex, goLiveStore)
   \<and> filterPrivate 200 privacyIndex = Inr [(''F'', 50), (''C'', 110)]
   \<and> arrIncludes (idx_pv privacyIndex) ''D''
   \<and> ''D'' \<notin> fst ` set [(''F'', 50::int), (''C'', 110)]
   \<and> ''D'' \<notin> fst ` set [(''C'', 110::int), (''F'', 112)]
   \<and> goLiveOf privacyIndex ''E'' = Some 500
   \<and> ''E'' \<notin> fst ` set [(''F'', 50::int), (''C'', 110)]
   \<and> ''E'' \<notin> fst ` set [(''C'', 110::int), (''F'', 112)]
   \<and> goLiveOf privacyIndex ''F'' = Some 50
   \<and> (''F'', 50) \<in> set [(''F'', 50::int), (''C'', 110)]
   \<and> (''F'', 112) \<in> set [(''C'', 110::int), (''F'', 112)]"
proof -
  from working_list_excludes_private[OF goLive_page] obtain newPuzzles index idsAndTimes where
    r: "refreshIndex RejectAll ''u'' ''a'' (QString ''u'') goLiveStore = Inr (newPuzzles, index, goLiveStore)"
    and f: "filterPrivate 200 index = Inr idsAndTimes"
    and t: "2 = length idsAndTimes"
    and s: "fst ` set [(''C'', 110::int), (''F'', 112)] \<subseteq> fst ` set idsAndTimes"
    and a: "\<forall>pid. arrIncludes (idx_pv index) pid
          \<longrightarrow> pid \<notin> fst ` set idsAndTimes \<and> pid \<notin> fst ` set [(''C'', 110::int), (''F'', 112)]"
    and b: "\<forall>pid goLive. goLiveOf index pid = Some goLive \<and> 200 < goLive
          \<longrightarrow> pid \<notin> fst ` set idsAndTimes \<and> pid \<notin> fst ` set [(''C'', 110::int), (''F'', 112)]"
    and c: "\<forall>pid ts goLive. (pid, ts) \<in> set (zip (idx_i index) (idx_t index))
          \<and> \<not> arrIncludes (idx_pv index) pid \<and> goLiveOf index pid = Some goLive \<and> goLive \<le> 200
          \<longrightarrow> (pid, goLive) \<in> set idsAndTimes
              \<and> (\<forall>d z. (0::nat) = 0 \<and> length idsAndTimes \<le> 10
                    \<and> pid \<notin> fst ` set newPuzzles
                    \<and> map_of (coll_c goLiveStore) pid = Some d \<and> DBPuzzleV_decode d = Some z
                    \<longrightarrow> (pid, pz_p z) \<in> set [(''C'', 110::int), (''F'', 112)])"
    by (elim exE conjE)
  from r have ix: "index = privacyIndex" and np: "newPuzzles = []"
    unfolding goLive_refresh by simp_all
  have f': "filterPrivate 200 privacyIndex = Inr idsAndTimes"
    using f unfolding ix .
  have len: "length idsAndTimes = 2" using t by simp
  have "arrIncludes (idx_pv index) ''D''"
    unfolding ix by (rule goLive_facts(1))
  then have d: "''D'' \<notin> fst ` set idsAndTimes
      \<and> ''D'' \<notin> fst ` set [(''C'', 110::int), (''F'', 112)]"
    by (rule a[THEN spec[where x="''D''"], THEN mp])
  have "goLiveOf index ''E'' = Some 500 \<and> (200::int) < 500"
    unfolding ix using goLive_facts(2) by simp
  then have e: "''E'' \<notin> fst ` set idsAndTimes
      \<and> ''E'' \<notin> fst ` set [(''C'', 110::int), (''F'', 112)]"
    by (rule b[THEN spec[where x="''E''"], THEN spec[where x="500::int"], THEN mp])
  have "(''F'', 112) \<in> set (zip (idx_i index) (idx_t index))
      \<and> \<not> arrIncludes (idx_pv index) ''F'' \<and> goLiveOf index ''F'' = Some 50 \<and> (50::int) \<le> 200"
    unfolding ix using goLive_facts(3,4) by (simp add: privacyIndex_def)
  then have k: "(''F'', 50) \<in> set idsAndTimes
      \<and> (\<forall>d z. (0::nat) = 0 \<and> length idsAndTimes \<le> 10
            \<and> ''F'' \<notin> fst ` set newPuzzles
            \<and> map_of (coll_c goLiveStore) ''F'' = Some d \<and> DBPuzzleV_decode d = Some z
            \<longrightarrow> (''F'', pz_p z) \<in> set [(''C'', 110::int), (''F'', 112)])"
    by (rule c[THEN spec[where x="''F''"], THEN spec[where x="112::int"],
          THEN spec[where x="50::int"], THEN mp])
  then have kept: "(''F'', 50) \<in> set idsAndTimes" ..
  have "(0::nat) = 0 \<and> length idsAndTimes \<le> 10
      \<and> ''F'' \<notin> fst ` set newPuzzles
      \<and> map_of (coll_c goLiveStore) ''F'' = Some (exampleDoc ''u'' 112)
      \<and> DBPuzzleV_decode (exampleDoc ''u'' 112)
          = Some \<lparr>pz_a = ''u'', pz_f = None, pz_p = 112, pz_pv = None, pz_pvu = None, pz_rest = ()\<rparr>"
    unfolding np using len goLive_facts(5,6) by simp
  then have "(''F'', pz_p \<lparr>pz_a = ''u'', pz_f = None, pz_p = 112, pz_pv = None, pz_pvu = None,
      pz_rest = ()\<rparr>) \<in> set [(''C'', 110::int), (''F'', 112)]"
    by (rule k[THEN conjunct2, THEN spec[where x="exampleDoc ''u'' 112"],
          THEN spec[where x="\<lparr>pz_a = ''u'', pz_f = None, pz_p = 112, pz_pv = None,
            pz_pvu = None, pz_rest = ()\<rparr>"], THEN mp])
  then have on_page: "(''F'', 112) \<in> set [(''C'', 110::int), (''F'', 112)]" by simp
  have it: "idsAndTimes = [(''F'', 50), (''C'', 110)]"
    using f' unfolding privacy_example by simp
  have "arrIncludes (idx_pv privacyIndex) ''D''
      \<and> ''D'' \<notin> fst ` set idsAndTimes
      \<and> ''D'' \<notin> fst ` set [(''C'', 110::int), (''F'', 112)]
      \<and> goLiveOf privacyIndex ''E'' = Some 500
      \<and> ''E'' \<notin> fst ` set idsAndTimes
      \<and> ''E'' \<notin> fst ` set [(''C'', 110::int), (''F'', 112)]
      \<and> goLiveOf privacyIndex ''F'' = Some 50
      \<and> (''F'', 50) \<in> set idsAndTimes
      \<and> (''F'', 112) \<in> set [(''C'', 110::int), (''F'', 112)]"
    apply (intro conjI)
            apply (rule goLive_facts(1))
           apply (rule d[THEN conjunct1])
          apply (rule d[THEN conjunct2])
         apply (rule goLive_facts(2))
        apply (rule e[THEN conjunct1])
       apply (rule e[THEN conjunct2])
      apply (rule goLive_facts(3))
     apply (rule kept)
    apply (rule on_page)
    done
  then have "arrIncludes (idx_pv privacyIndex) ''D''
      \<and> ''D'' \<notin> fst ` set [(''F'', 50::int), (''C'', 110)]
      \<and> ''D'' \<notin> fst ` set [(''C'', 110::int), (''F'', 112)]
      \<and> goLiveOf privacyIndex ''E'' = Some 500
      \<and> ''E'' \<notin> fst ` set [(''F'', 50::int), (''C'', 110)]
      \<and> ''E'' \<notin> fst ` set [(''C'', 110::int), (''F'', 112)]
      \<and> goLiveOf privacyIndex ''F'' = Some 50
      \<and> (''F'', 50) \<in> set [(''F'', 50::int), (''C'', 110)]
      \<and> (''F'', 112) \<in> set [(''C'', 110::int), (''F'', 112)]"
    unfolding it .
  with goLive_page goLive_refresh privacy_example show ?thesis by blast
qed

section \<open>Properties of the comment form\<close>

lemma length_trim: "length (trim s) \<le> length s"
proof -
  have "length (trim s) \<le> length (dropWhile isWhiteSpace s)"
    unfolding trim_def using length_dropWhile_le[of isWhiteSpace "rev (dropWhile isWhiteSpace s)"]
    by simp
  also have "\<dots> \<le> length s" by (rule length_dropWhile_le)
  finally show ?thesis .
qed

lemma trim_edges:
  assumes "trim s \<noteq> []"
  shows "\<not> isWhiteSpace (hd (trim s))" and "\<not> isWhiteSpace (last (trim s))"
proof -
  let ?u = "dropWhile isWhiteSpace s"
  let ?v = "dropWhile isWhiteSpace (rev ?u)"
  from assms have v: "?v \<noteq> []" by (simp add: trim_def)
  then have "\<not> isWhiteSpace (hd ?v)" by (rule hd_dropWhile)
  then show "\<not> isWhiteSpace (last (trim s))" using v by (simp add: trim_def last_rev)
  have u: "?u \<noteq> []"
  proof
    assume e: "?u = []"
    have "?v = []" unfolding e by simp
    with v show False by blast
  qed
  then have hu: "\<not> isWhiteSpace (hd ?u)" by (rule hd_dropWhile)
  have "last ?v = last (rev ?u)"
    using v by (metis append_Nil2 last_appendR takeWhile_dropWhile_id)
  also have "\<dots> = hd ?u" using u by (simp add: last_rev)
  finally show "\<not> isWhiteSpace (hd (trim s))" using hu v by (simp add: trim_def hd_rev)
qed

lemma trim_all_white: "(\<forall>u\<in>set s. isWhiteSpace u) \<Longrightarrow> trim s = []"
proof -
  assume "\<forall>u\<in>set s. isWhiteSpace u"
  then have d: "dropWhile isWhiteSpace s = []" by (simp add: dropWhile_eq_Nil_conv)
  show ?thesis unfolding trim_def d by simp
qed

lemma sanitize_length: "length (sanitize v) \<le> COMMENT_LENGTH_LIMIT"
  by (simp add: sanitize_def)

lemma trim_sanitize_ok:
  assumes "trim (sanitize v) \<noteq> []"
  shows "storedOk \<lparr>cm_c = trim (sanitize v), cm_a = a, cm_n = n, cm_t = t, cm_ch = ch, cm_p = p,
      cm_pid = pid, cm_rt = rt, cm_un = un\<rparr>"
proof -
  have "length (trim (sanitize v)) \<le> COMMENT_LENGTH_LIMIT"
    using length_trim[of "sanitize v"] sanitize_length[of v] by simp
  with assms trim_edges[OF assms] show ?thesis by (auto simp: storedOk_def)
qed

lemma formInv_initial: "formInv initialForm"
  by (auto simp: formInv_def initialForm_def sanitize_def intro: exI[of _ "[]"])

lemma formInv_onChange: "formInv st \<Longrightarrow> formInv (onChange v st)"
  by (auto simp: formInv_def onChange_def)

lemma formInv_submitComment: "formInv st \<Longrightarrow> formInv (submitComment props now st)"
proof -
  assume inv: "formInv st"
  then obtain v where v: "commentText st = sanitize v" by (auto simp: formInv_def)
  show ?thesis
  proof (cases "trim (sanitize v) = []")
    case True
    with inv v show ?thesis by (simp add: submitComment_def)
  next
    case False
    note ok = trim_sanitize_ok[OF False]
    with inv v False show ?thesis
      by (auto simp: formInv_def submitComment_def Let_def)
  qed
qed

lemma formInv_uploaded: "formInv st \<Longrightarrow> formInv (uploaded refId st)"
  by (cases "uploading st") (auto simp: formInv_def uploaded_def)

lemma formInv_step: "formInv st \<Longrightarrow> formInv (formStep st ev)"
  by (cases ev) (simp_all add: formInv_onChange formInv_submitComment formInv_uploaded)

lemma formInv_run: "formInv (runForm events)"
  unfolding runForm_def
  by (induction events rule: rev_induct) (simp_all add: formInv_initial formInv_step)

text \<open>
  C9. Whatever happens to a comment form (changes of the text area, submissions, uploads
  that resolve), every comment it has added to the collection \<^verbatim>\<open>cfm\<close> has a non-empty
  text of at most 280 code units, without white space at either end: the trimmed text of
  an input cut to its first 280 code units. Submitting a text of white space only changes
  nothing, and the text area never holds more than the first 280 code units of its input.
\<close>

theorem submitted_comments_are_trimmed_nonempty_and_short:
  "(\<forall>cm\<in>set (cfm (runForm events)).
      cm_c cm \<noteq> [] \<and> length (cm_c cm) \<le> 280
      \<and> \<not> isWhiteSpace (hd (cm_c cm)) \<and> \<not> isWhiteSpace (last (cm_c cm))
      \<and> (\<exists>input. cm_c cm = trim (take 280 input)))
   \<and> ((\<forall>u\<in>set (commentText st). isWhiteSpace u) \<longrightarrow> submitComment props now st = st)
   \<and> commentText (onChange v st) = take 280 v"
proof -
  have "\<forall>cm\<in>set (cfm (runForm events)). storedOk cm"
    using formInv_run[of events] by (simp add: formInv_def)
  then show ?thesis
    by (auto simp: storedOk_def COMMENT_LENGTH_LIMIT_def sanitize_def submitComment_def
        trim_all_white onChange_def)
qed

lemma example_run:
  "cfm (runForm exampleEvents) =
     [\<lparr>cm_c = [0x68, 0x69], cm_a = ''mike'', cm_n = ''Mike'', cm_t = 55, cm_ch = False, cm_p = 1000,
       cm_pid = ''A'', cm_rt = None, cm_un = None\<rparr>]"
  by code_simp


theorem submitted_comments_are_trimmed_nonempty_and_short_witness:
  "cfm (runForm exampleEvents) =
     [\<lparr>cm_c = [0x68, 0x69], cm_a = ''mike'', cm_n = ''Mike'', cm_t = 55, cm_ch = False, cm_p = 1000,
       cm_pid = ''A'', cm_rt = None, cm_un = None\<rparr>]
   \<and> length [0x68, 0x69 :: 16 word] \<le> 280 \<and> \<not> isWhiteSpace 0x68 \<and> \<not> isWhiteSpace 0x69
   \<and> (\<exists>input. [0x68, 0x69] = trim (take 280 input))
   \<and> isWhiteSpace 0x20
   \<and> submitComment exampleProps 1000 (onChange [0x20, 0x20] initialForm) = onChange [0x20, 0x20] initialForm"
proof -
  note t = submitted_comments_are_trimmed_nonempty_and_short[of exampleEvents
      "onChange [0x20, 0x20] initialForm" exampleProps 1000 "[]"]
  have ws: "isWhiteSpace 0x20" by code_simp
  have "\<forall>u\<in>set (commentText (onChange [0x20, 0x20] initialForm)). isWhiteSpace u"
    by (simp add: onChange_def sanitize_def COMMENT_LENGTH_LIMIT_def ws)
  with t have s: "submitComment exampleProps 1000 (onChange [0x20, 0x20] initialForm)
      = onChange [0x20, 0x20] initialForm" by blast
  from t have "\<forall>cm\<in>set (cfm (runForm exampleEvents)).
      cm_c cm \<noteq> [] \<and> length (cm_c cm) \<le> 280
      \<and> \<not> isWhiteSpace (hd (cm_c cm)) \<and> \<not> isWhiteSpace (last (cm_c cm))
      \<and> (\<exists>input. cm_c cm = trim (take 280 input))" by blast
  then have "length [0x68, 0x69 :: 16 word] \<le> 280 \<and> \<not> isWhiteSpace 0x68 \<and> \<not> isWhiteSpace 0x69
   \<and> (\<exists>input. [0x68, 0x69] = trim (take 280 input))"
    unfolding example_run by simp
  with s ws example_run show ?thesis by blast
qed

section \<open>Properties of the notification emails\<close>

text \<open>
  C10. For a user whose account preferences decode and list \<^verbatim>\<open>all\<close> among the unsubscribe
  flags, queueEmailForUser leaves the store as it is: no document is added to the
  collection \<^verbatim>\<open>mail\<close> and no notification is marked read, whatever notifications are
  pending.
\<close>

theorem unsubscribed_from_all_gets_no_email:
  assumes "map_of (prefsDocs db) userId = Some (ValidPrefs prefs)"
    and "arrIncludes (unsubs prefs) ''all''"
  shows "queueEmailForUser compose sortById userId notifications db = db"
  using assms by (simp add: queueEmailForUser_def unsubscribed_def)

theorem unsubscribed_from_all_gets_no_email_witness:
  "map_of (prefsDocs exampleMailWorld) ''mike'' = Some (ValidPrefs \<lparr>unsubs = Some [''all'']\<rparr>)
   \<and> arrIncludes (unsubs \<lparr>unsubs = Some [''all'']\<rparr>) ''all''
   \<and> queueEmailForUser (\<lambda>prefs sorted. (''Crosshare Notifications'', length sorted)) id ''mike''
        exampleNotifications exampleMailWorld = exampleMailWorld
   \<and> mail exampleMailWorld = []
   \<and> map (\<lambda>d. nt_r (snd d)) (notificationDocs exampleMailWorld) = [False, False]"
proof -
  have a: "map_of (prefsDocs exampleMailWorld) ''mike'' = Some (ValidPrefs \<lparr>unsubs = Some [''all'']\<rparr>)"
    by (simp add: exampleMailWorld_def)
  have b: "arrIncludes (unsubs \<lparr>unsubs = Some [''all'']\<rparr>) ''all''"
    by (simp add: arrIncludes_def)
  have c: "mail exampleMailWorld = []" by (simp add: exampleMailWorld_def)
  have d: "map (\<lambda>d. nt_r (snd d)) (notificationDocs exampleMailWorld) = [False, False]"
    by (simp add: exampleMailWorld_def exampleNotifications_def)
  from unsubscribed_from_all_gets_no_email[OF a b] a b c d show ?thesis by blast
qed

lemma subscribed_example:
  "queueEmailForUser (\<lambda>prefs sorted. (''Crosshare Notifications'', length sorted)) id ''mike''
        exampleNotifications (exampleMailWorld\<lparr>prefsDocs := []\<rparr>) =
     exampleMailWorld\<lparr>prefsDocs := [],
        mail := [\<lparr>mail_to = [''mike@example.com''], mail_message = (''Crosshare Notifications'', 2)\<rparr>],
        notificationDocs := map (\<lambda>x. (nt_id x, x\<lparr>nt_r := True\<rparr>)) exampleNotifications\<rparr>"
  by code_simp

section \<open>Properties of the fill and publish checks\<close>

lemma isEntryComplete_iff: "isEntryComplete e g \<longleftrightarrow> (\<forall>i\<in>set (en_cells e). holdsLetter g i)"
  by (simp add: isEntryComplete_def list_all_iff)

lemma cell_letter:
  "cellAt g i = Some (Letter s) \<Longrightarrow> letterAt g i = s \<and> (holdsLetter g i \<longleftrightarrow> s \<noteq> [])"
  by (simp add: letterAt_def holdsLetter_def)

text \<open>
  C8. Against the spec's definition of completedWord: it returns null exactly when some
  cell of the entry does not hold a letter, and when the cells of the entry hold the
  letters L1..Ln it returns their concatenation.
\<close>

theorem completedWord_null_iff_some_cell_unfilled:
  "(completedWord e g = None \<longleftrightarrow> (\<exists>i\<in>set (en_cells e). \<not> holdsLetter g i))
   \<and> (length letters = length (en_cells e)
        \<and> (\<forall>k<length letters. letters ! k \<noteq> [] \<and> cellAt g (en_cells e ! k) = Some (Letter (letters ! k)))
      \<longrightarrow> completedWord e g = Some (concat letters))"
proof (intro conjI impI)
  show "completedWord e g = None \<longleftrightarrow> (\<exists>i\<in>set (en_cells e). \<not> holdsLetter g i)"
    by (simp add: completedWord_def isEntryComplete_iff)
next
  assume a: "length letters = length (en_cells e)
        \<and> (\<forall>k<length letters. letters ! k \<noteq> [] \<and> cellAt g (en_cells e ! k) = Some (Letter (letters ! k)))"
  have complete: "isEntryComplete e g"
    unfolding isEntryComplete_iff
  proof
    fix i assume "i \<in> set (en_cells e)"
    then obtain k where k: "k < length (en_cells e)" "en_cells e ! k = i"
      by (auto simp: in_set_conv_nth)
    with a have "letters ! k \<noteq> []" "cellAt g i = Some (Letter (letters ! k))" by auto
    then show "holdsLetter g i" using cell_letter[of g i "letters ! k"] by simp
  qed
  have "map (letterAt g) (en_cells e) = letters"
  proof (rule nth_equalityI)
    show "length (map (letterAt g) (en_cells e)) = length letters" using a by simp
  next
    fix k assume "k < length (map (letterAt g) (en_cells e))"
    then have k: "k < length letters" using a by simp
    with a have "cellAt g (en_cells e ! k) = Some (Letter (letters ! k))" by simp
    then have "letterAt g (en_cells e ! k) = letters ! k" by (simp add: cell_letter)
    with k a show "map (letterAt g) (en_cells e) ! k = letters ! k" by simp
  qed
  with complete show "completedWord e g = Some (concat letters)"
    by (simp add: completedWord_def)
qed

theorem completedWord_null_iff_some_cell_unfilled_witness:
  "completedWord (g_entries exampleGrid ! 0) exampleGrid = Some ''AB''
   \<and> completedWord (g_entries exampleGrid ! 0) (exampleGrid\<lparr>g_cells := [Letter ''A'', Block, Empty, Letter ''C'']\<rparr>) = None
   \<and> 2 \<in> set (en_cells (g_entries exampleGrid ! 0))
   \<and> \<not> holdsLetter (exampleGrid\<lparr>g_cells := [Letter ''A'', Block, Empty, Letter ''C'']\<rparr>) 2"
proof -
  let ?e = "g_entries exampleGrid ! 0"
  let ?g' = "exampleGrid\<lparr>g_cells := [Letter ''A'', Block, Empty, Letter ''C'']\<rparr>"
  have cells: "en_cells ?e = [0, 2]" by (simp add: exampleGrid_def)
  have m: "2 \<in> set (en_cells ?e)" by (simp add: cells)
  have h: "\<not> holdsLetter ?g' 2" by (simp add: holdsLetter_def cellAt_def)
  have l: "length [''A'', ''B''] = length (en_cells ?e)
        \<and> (\<forall>k<length [''A'', ''B'']. [''A'', ''B''] ! k \<noteq> []
             \<and> cellAt exampleGrid (en_cells ?e ! k) = Some (Letter ([''A'', ''B''] ! k)))"
    by (simp add: cells cellAt_def exampleGrid_def less_Suc_eq)
  from completedWord_null_iff_some_cell_unfilled[of ?e exampleGrid "[''A'', ''B'']"] l
  have 1: "completedWord ?e exampleGrid = Some ''AB''" by simp
  from completedWord_null_iff_some_cell_unfilled[of ?e ?g' "[]"] m h
  have 2: "completedWord ?e ?g' = None" by blast
  from 1 2 m h show ?thesis by blast
qed

lemma publishErrors_append: "publishErrors (xs @ ys) = publishErrors xs @ publishErrors ys"
  by (induction xs) (simp_all add: publishErrors_def split: issue.split)

lemma publishWarnings_append: "publishWarnings (xs @ ys) = publishWarnings xs @ publishWarnings ys"
  by (induction xs) (simp_all add: publishWarnings_def split: issue.split)

lemma publishErrors_errors: "publishErrors (map (\<lambda>x. Error (f x)) xs) = map f xs"
  by (induction xs) (simp_all add: publishErrors_def)

lemma publishErrors_warnings: "publishErrors (map (\<lambda>x. Warning (f x)) xs) = []"
  by (induction xs) (simp_all add: publishErrors_def)

lemma publishWarnings_errors: "publishWarnings (map (\<lambda>x. Error (f x)) xs) = []"
  by (induction xs) (simp_all add: publishWarnings_def)

lemma publishWarnings_warnings: "publishWarnings (map (\<lambda>x. Warning (f x)) xs) = map f xs"
  by (induction xs) (simp_all add: publishWarnings_def)

lemma validate_errors:
  "publishErrors (validateForPublish heuristics g cl)
     = map (\<lambda>e. MissingClue (en_direction e) (en_label e)) (filter (\<lambda>e. \<not> hasClue cl e) (g_entries g))"
  by (simp add: validateForPublish_def publishErrors_append publishErrors_errors
      publishErrors_warnings) (simp add: publishErrors_def)

lemma validate_warnings:
  "publishWarnings (validateForPublish heuristics g cl)
     = map Heuristic (heuristics g)
       @ (if symmetryHolds g then [] else [SymmetryMismatch (g_symmetry g)])"
  by (simp add: validateForPublish_def publishWarnings_append publishWarnings_errors
      publishWarnings_warnings) (simp add: publishWarnings_def)

text \<open>
  C7. Against the spec's definition of validateForPublish: the errors are exactly one
  missing-clue error for each entry without a non-empty clue, and such an error blocks
  publishing; when every entry has a non-empty clue there is no error, whatever symmetry
  is declared; a symmetry mismatch and the size and connectivity heuristics are reported
  as warnings only.
\<close>

theorem missing_clues_are_the_only_publish_errors:
  "publishErrors (validateForPublish heuristics g cl)
     = map (\<lambda>e. MissingClue (en_direction e) (en_label e)) (filter (\<lambda>e. \<not> hasClue cl e) (g_entries g))
   \<and> (\<forall>e\<in>set (g_entries g). \<not> hasClue cl e \<longrightarrow>
        Error (MissingClue (en_direction e) (en_label e)) \<in> set (validateForPublish heuristics g cl)
        \<and> \<not> canPublish (validateForPublish heuristics g cl))
   \<and> ((\<forall>e\<in>set (g_entries g). hasClue cl e) \<longrightarrow>
        (\<forall>declared. publishErrors (validateForPublish heuristics (g\<lparr>g_symmetry := declared\<rparr>) cl) = []
           \<and> canPublish (validateForPublish heuristics (g\<lparr>g_symmetry := declared\<rparr>) cl)))
   \<and> publishWarnings (validateForPublish heuristics g cl)
       = map Heuristic (heuristics g)
         @ (if symmetryHolds g then [] else [SymmetryMismatch (g_symmetry g)])"
proof (intro conjI ballI impI allI)
  show "publishErrors (validateForPublish heuristics g cl)
     = map (\<lambda>e. MissingClue (en_direction e) (en_label e)) (filter (\<lambda>e. \<not> hasClue cl e) (g_entries g))"
    by (rule validate_errors)
next
  fix e assume "e \<in> set (g_entries g)" "\<not> hasClue cl e"
  then show "Error (MissingClue (en_direction e) (en_label e)) \<in> set (validateForPublish heuristics g cl)"
    by (simp add: validateForPublish_def)
next
  fix e assume "e \<in> set (g_entries g)" "\<not> hasClue cl e"
  then have "filter (\<lambda>e. \<not> hasClue cl e) (g_entries g) \<noteq> []"
    by (auto simp: filter_empty_conv)
  then show "\<not> canPublish (validateForPublish heuristics g cl)"
    by (simp add: canPublish_def validate_errors)
next
  fix declared assume "\<forall>e\<in>set (g_entries g). hasClue cl e"
  then have "filter (\<lambda>e. \<not> hasClue cl e) (g_entries g) = []"
    by (simp add: filter_empty_conv)
  then show "publishErrors (validateForPublish heuristics (g\<lparr>g_symmetry := declared\<rparr>) cl) = []"
    by (simp add: validate_errors)
  then show "canPublish (validateForPublish heuristics (g\<lparr>g_symmetry := declared\<rparr>) cl)"
    by (simp add: canPublish_def)
next
  show "publishWarnings (validateForPublish heuristics g cl)
       = map Heuristic (heuristics g)
         @ (if symmetryHolds g then [] else [SymmetryMismatch (g_symmetry g)])"
    by (rule validate_warnings)
qed

lemma example_validate:
  "validateForPublish (\<lambda>g. []) exampleGrid exampleClues = [Warning (SymmetryMismatch Rotational)]"
  "validateForPublish (\<lambda>g. []) exampleGrid (exampleClues((Across, 2) := None))
     = [Error (MissingClue Across 2), Warning (SymmetryMismatch Rotational)]"
  by code_simp+


theorem missing_clues_are_the_only_publish_errors_witness:
  "hasClue exampleClues (g_entries exampleGrid ! 0)
   \<and> hasClue exampleClues (g_entries exampleGrid ! 1)
   \<and> \<not> symmetryHolds exampleGrid
   \<and> publishErrors (validateForPublish (\<lambda>g. []) exampleGrid exampleClues) = []
   \<and> canPublish (validateForPublish (\<lambda>g. []) exampleGrid exampleClues)
   \<and> publishWarnings (validateForPublish (\<lambda>g. []) exampleGrid exampleClues)
       = [SymmetryMismatch Rotational]
   \<and> \<not> hasClue (exampleClues((Across, 2) := None)) (g_entries exampleGrid ! 1)
   \<and> Error (MissingClue Across 2)
        \<in> set (validateForPublish (\<lambda>g. []) exampleGrid (exampleClues((Across, 2) := None)))
   \<and> \<not> canPublish (validateForPublish (\<lambda>g. []) exampleGrid (exampleClues((Across, 2) := None)))"
proof -
  note t1 = missing_clues_are_the_only_publish_errors[of "\<lambda>g. []" exampleGrid exampleClues]
  note t2 = missing_clues_are_the_only_publish_errors[of "\<lambda>g. []" exampleGrid
      "exampleClues((Across, 2) := None)"]
  have all: "\<forall>e\<in>set (g_entries exampleGrid). hasClue exampleClues e"
    by (simp add: exampleGrid_def exampleClues_def hasClue_def)
  have sym: "\<not> symmetryHolds exampleGrid" by code_simp
  have same: "exampleGrid\<lparr>g_symmetry := Rotational\<rparr> = exampleGrid" by (simp add: exampleGrid_def)
  from t1 all have "publishErrors (validateForPublish (\<lambda>g. []) (exampleGrid\<lparr>g_symmetry := Rotational\<rparr>)
        exampleClues) = []
      \<and> canPublish (validateForPublish (\<lambda>g. []) (exampleGrid\<lparr>g_symmetry := Rotational\<rparr>) exampleClues)"
    by blast
  then have ok: "publishErrors (validateForPublish (\<lambda>g. []) exampleGrid exampleClues) = []
      \<and> canPublish (validateForPublish (\<lambda>g. []) exampleGrid exampleClues)"
    unfolding same .
  from t1 have "publishWarnings (validateForPublish (\<lambda>g. []) exampleGrid exampleClues)
       = map Heuristic [] @ (if symmetryHolds exampleGrid then [] else [SymmetryMismatch (g_symmetry exampleGrid)])"
    by blast
  with sym have w: "publishWarnings (validateForPublish (\<lambda>g. []) exampleGrid exampleClues)
       = [SymmetryMismatch Rotational]"
    by (simp add: exampleGrid_def)
  have e1: "g_entries exampleGrid ! 1 \<in> set (g_entries exampleGrid)" by (simp add: exampleGrid_def)
  have nc: "\<not> hasClue (exampleClues((Across, 2) := None)) (g_entries exampleGrid ! 1)"
    by (simp add: exampleGrid_def hasClue_def)
  have d: "en_direction (g_entries exampleGrid ! 1) = Across" "en_label (g_entries exampleGrid ! 1) = 2"
    by (simp_all add: exampleGrid_def)
  from t2 e1 nc have "Error (MissingClue (en_direction (g_entries exampleGrid ! 1))
          (en_label (g_entries exampleGrid ! 1)))
        \<in> set (validateForPublish (\<lambda>g. []) exampleGrid (exampleClues((Across, 2) := None)))
      \<and> \<not> canPublish (validateForPublish (\<lambda>g. []) exampleGrid (exampleClues((Across, 2) := None)))"
    by blast
  then have err: "Error (MissingClue Across 2)
        \<in> set (validateForPublish (\<lambda>g. []) exampleGrid (exampleClues((Across, 2) := None)))
      \<and> \<not> canPublish (validateForPublish (\<lambda>g. []) exampleGrid (exampleClues((Across, 2) := None)))"
    unfolding d .
  have h0: "hasClue exampleClues (g_entries exampleGrid ! 0)"
    and h1: "hasClue exampleClues (g_entries exampleGrid ! 1)"
    using all by (simp_all add: exampleGrid_def)
  from h0 h1 sym ok w nc err show ?thesis by blast
qed

end
